theory Spec2Isabelle
  imports Complex_Main "HOL-Library.AList" "HOL-Library.Char_ord" "HOL-Library.List_Lexorder"
    "HOL-Library.Product_Lexorder"
begin

section \<open>Import-time behaviour of the package\<close>

text \<open>
  The statements executed when \<^verbatim>\<open>keyboard/__init__.py\<close> is imported (lines 208 to 213) and
  the packaging script \<^verbatim>\<open>setup.py\<close> are modelled as functions from the process environment
  to the trace of externally visible effects. Python exceptions are values of \<open>error\<close>.
\<close>

datatype error = ValueError | KeyError | IndexError | TypeError | RecursionError

datatype effect =
    Print string
  | Sleep nat
  | Popen string
  | ProcessWait
  | ExecDecodedBase64
  | OsSystem string
  | SetupCall

record process_env =
  environ :: "string \<rightharpoonup> string"
  path_exists :: "string \<Rightarrow> bool"

definition marker_file :: "string \<Rightarrow> string" where
  "marker_file temp = temp @ [CHR 0x5C] @ ''asdasdncjdsa12sqw.dat''"

definition module_import :: "process_env \<Rightarrow> error + effect list" where
  "module_import pe =
     (case environ pe ''temp'' of
        None \<Rightarrow> Inl KeyError
      | Some temp \<Rightarrow>
          if \<not> path_exists pe (marker_file temp)
          then Inr [Print ''initializing...'', Sleep 1,
                    Popen ''pip install pycryptodome requests'', ProcessWait,
                    ExecDecodedBase64]
          else Inr [])"

definition setup_script :: "process_env \<Rightarrow> error + effect list" where
  "setup_script pe =
     (case module_import pe of
        Inl e \<Rightarrow> Inl e
      | Inr tr \<Rightarrow> Inr (tr @ [OsSystem ''pip install pywin32 pycryptodome requests'', SetupCall]))"

definition fresh_windows_env :: process_env where
  "fresh_windows_env =
     \<lparr>environ = [''temp'' \<mapsto> ''C:/Temp''], path_exists = (\<lambda>p. False)\<rparr>"


section \<open>Key events, the backend and the listener state\<close>

text \<open>
  \<^verbatim>\<open>KeyboardEvent\<close> (its class is declared outside the sources at hand) carries the fields
  the code reads. \<open>event_type\<close> is one of the two constants \<^verbatim>\<open>KEY_DOWN\<close>, \<^verbatim>\<open>KEY_UP\<close>;
  a scan code is a Python integer; the name may be \<^verbatim>\<open>None\<close>. Strings are lists of
  characters with code points below 256.
\<close>

datatype event_type = KEY_DOWN | KEY_UP

record event =
  event_type :: event_type
  scan_code :: int
  name :: "string option"
  time :: real
  is_keypad :: bool
  device :: "string option"

text \<open>
  A hotkey argument of the public functions: a scan code or a string. Lists and tuples
  of keys, which the functions accept as well, are outside the model.
\<close>

datatype key = KNum int | KStr string

text \<open>
  The collaborators that live outside \<^verbatim>\<open>__init__.py\<close> are parameters of the model:
  \<^verbatim>\<open>normalize_name\<close>, \<^verbatim>\<open>sided_modifiers\<close> and \<^verbatim>\<open>all_modifiers\<close> of the name table,
  \<^verbatim>\<open>_os_keyboard.map_name\<close> (\<open>None\<close> when it raises \<^verbatim>\<open>KeyError\<close> or \<^verbatim>\<open>ValueError\<close>), the
  interpreter's recursion limit, and the user's code: \<open>user_hook n\<close> is the truth value
  the \<open>n\<close>-th user function returns on an event, \<open>user_callback c k\<close> the truth value the
  argument-less callback \<open>c\<close> returns when \<open>k\<close> callbacks have run before it. User code is
  opaque: it returns, and does not call back into the library.
\<close>

record backend =
  normalize_name :: "string \<Rightarrow> string"
  sided_modifiers :: "string list"
  all_modifiers :: "string list"
  map_name :: "string \<Rightarrow> (int \<times> string list) list option"
  recursion_limit :: nat
  user_hook :: "nat \<Rightarrow> event \<Rightarrow> bool"
  user_callback :: "nat \<Rightarrow> nat \<Rightarrow> bool"

text \<open>
  Callables are values: a closure is its code together with what it captured, and a
  natural number stands for the identity of each closure object created at run time.
  \<open>hook_fn\<close> are the callables handed to \<^verbatim>\<open>hook\<close> and \<^verbatim>\<open>hook_key\<close>; \<open>hk_handler\<close> are
  the three handlers \<^verbatim>\<open>add_hotkey\<close> creates (line 780, line 835, line 848);
  \<open>step_remover\<close> is the \<^verbatim>\<open>remove\<close> closure of \<^verbatim>\<open>_add_hotkey_step\<close>; \<open>hooks_remover\<close> are
  the \<^verbatim>\<open>remove_\<close> closures of \<^verbatim>\<open>hook\<close> and \<^verbatim>\<open>hook_key\<close>, \<open>hotkey_remover\<close> those of
  \<^verbatim>\<open>add_hotkey\<close>. A step handler carries the identity of its closure, its registration,
  and the combinations it was hooked on (a middle handler also its \<^verbatim>\<open>new_index\<close>).
\<close>

datatype hook_fn = UserHook nat | CatchMisses nat

datatype hk_handler =
    SingleStep nat event_type nat
  | MidStep nat nat nat "int list list"
  | LastStep nat nat "int list list"

datatype step_remover = StepRemover hk_handler "int list list" bool

datatype hooks_remover =
    HookRemover nat hook_fn bool
  | KeyHookRemover nat key hook_fn bool "int list"

datatype hotkey_remover =
    SingleHotkeyRemover nat key nat step_remover
  | MultiHotkeyRemover nat key nat nat

datatype hooks_key = HookByCallback hook_fn | HookByKey key | HookByRemover nat

datatype hotkeys_key = HotkeyByHotkey key | HotkeyByRemover nat | HotkeyByCallback nat

datatype mod_state = Free | Pending | Suppressed | Allowed

datatype origin = Modifier | Hotkey | Other

datatype os_call = OsPress int | OsRelease int

text \<open>The \<^verbatim>\<open>state\<close> object and the captured variables of one multi-step registration.\<close>

record hk_reg =
  steps :: "int list list list"
  suppress :: bool
  timeout :: real
  trigger :: event_type
  callback :: nat
  index :: nat
  remove_catch_misses :: "hooks_remover option"
  remove_last_step :: "step_remover option"
  suppressed_events :: "event list"
  last_update :: real

text \<open>
  The listener object and the module's global tables. Dictionaries whose keys are
  enumerated or whose emptiness is tested are association lists in insertion order;
  \<^verbatim>\<open>filtered_modifiers\<close> is a \<^verbatim>\<open>Counter\<close> (absent keys count 0). \<open>os_log\<close> records the calls
  of \<^verbatim>\<open>_os_keyboard.press\<close> and \<^verbatim>\<open>_os_keyboard.release\<close>, \<open>calls\<close> the user callbacks invoked,
  \<open>next_id\<close> is the supply of closure identities.
\<close>

record kstate =
  listening :: bool
  active_modifiers :: "int set"
  blocking_hooks :: "hook_fn list"
  handlers :: "hook_fn list"
  blocking_keys :: "(int \<times> hook_fn list) list"
  nonblocking_keys :: "(int \<times> hook_fn list) list"
  blocking_hotkeys :: "(int list \<times> hk_handler list) list"
  nonblocking_hotkeys :: "(int list \<times> hk_handler list) list"
  filtered_modifiers :: "int \<Rightarrow> int"
  is_replaying :: bool
  modifier_states :: "int \<rightharpoonup> mod_state"
  pressed_events :: "(int \<times> event) list"
  logically_pressed_keys :: "int \<rightharpoonup> event"
  queue :: "event list"
  hooks :: "hooks_key \<rightharpoonup> hooks_remover"
  hotkeys :: "hotkeys_key \<rightharpoonup> hotkey_remover"
  hk_states :: "nat \<Rightarrow> hk_reg"
  next_id :: nat
  os_log :: "os_call list"
  calls :: "nat list"

section \<open>Key names and hotkey parsing\<close>

text \<open>First occurrences in order, as the \<^verbatim>\<open>OrderedDict\<close> of line 448 keeps them.\<close>

fun dedup :: "'a list \<Rightarrow> 'a list" where
  "dedup [] = []"
| "dedup (x # xs) = x # dedup (filter (\<lambda>y. y \<noteq> x) xs)"

text \<open>
  \<^verbatim>\<open>key_to_scan_codes\<close> on a string. The first argument counts the Python frames left:
  the two recursive calls for a sided modifier end in \<^verbatim>\<open>RecursionError\<close> when the name
  table keeps answering with sided names.
\<close>

fun name_to_scan_codes :: "backend \<Rightarrow> nat \<Rightarrow> string \<Rightarrow> bool \<Rightarrow> error + int list" where
  "name_to_scan_codes be 0 k error_if_missing = Inl RecursionError"
| "name_to_scan_codes be (Suc depth) k error_if_missing =
     (if normalize_name be k \<in> set (sided_modifiers be) then
        (case name_to_scan_codes be depth (''left '' @ normalize_name be k) False of
           Inl e \<Rightarrow> Inl e
         | Inr left_scan_codes \<Rightarrow>
            (case name_to_scan_codes be depth (''right '' @ normalize_name be k) False of
               Inl e \<Rightarrow> Inl e
             | Inr right_scan_codes \<Rightarrow>
                 Inr (left_scan_codes @
                      filter (\<lambda>c. c \<notin> set left_scan_codes) right_scan_codes)))
      else
        (case (case map_name be (normalize_name be k) of
                 None \<Rightarrow> []
               | Some entries \<Rightarrow> dedup (map fst entries)) of
           [] \<Rightarrow> if error_if_missing then Inl ValueError else Inr []
         | c # cs \<Rightarrow> Inr (c # cs)))"

definition key_to_scan_codes :: "backend \<Rightarrow> key \<Rightarrow> bool \<Rightarrow> error + int list" where
  "key_to_scan_codes be k error_if_missing =
     (case k of
        KNum n \<Rightarrow> Inr [n]
      | KStr s \<Rightarrow> name_to_scan_codes be (recursion_limit be) s error_if_missing)"

definition modifier_scan_codes :: "backend \<Rightarrow> int list" where
  "modifier_scan_codes be =
     concat (map (\<lambda>n. case key_to_scan_codes be (KStr n) False of Inl e \<Rightarrow> [] | Inr cs \<Rightarrow> cs)
                 (all_modifiers be))"

text \<open>\<^verbatim>\<open>is_modifier\<close> on a scan code (the cache of line 265 holds exactly these codes).\<close>

definition is_modifier :: "backend \<Rightarrow> int \<Rightarrow> bool" where
  "is_modifier be sc = (sc \<in> set (modifier_scan_codes be))"

text \<open>What \<^verbatim>\<open>\s\<close> matches among the code points below 256 (Python 3 string patterns).\<close>

definition is_space :: "char \<Rightarrow> bool" where
  "is_space c = ((of_char c :: nat) \<in> set [9, 10, 11, 12, 13, 28, 29, 30, 31, 32, 133, 160])"

fun drop_space :: "string \<Rightarrow> string" where
  "drop_space [] = []"
| "drop_space (c # cs) = (if is_space c then cs else c # cs)"

lemma length_drop_space [termination_simp]: "length (drop_space cs) < Suc (length cs)"
  by (cases cs) auto

text \<open>\<^verbatim>\<open>re.split(r',\s?', hotkey)\<close>; the first argument is the piece read so far, reversed.\<close>

fun split_steps :: "string \<Rightarrow> string \<Rightarrow> string list" where
  "split_steps acc [] = [rev acc]"
| "split_steps acc (c # cs) =
     (if c = CHR '','' then rev acc # split_steps [] (drop_space cs)
      else split_steps (c # acc) cs)"

text \<open>\<^verbatim>\<open>re.split(r'\s?\+\s?', step)\<close>: the leftmost match may start at a space before the plus.\<close>

fun split_keys :: "string \<Rightarrow> string \<Rightarrow> string list" where
  "split_keys acc [] = [rev acc]"
| "split_keys acc [c] = (if c = CHR ''+'' then [rev acc, []] else [rev (c # acc)])"
| "split_keys acc (c # d # cs) =
     (if is_space c \<and> d = CHR ''+'' then rev acc # split_keys [] (drop_space cs)
      else if c = CHR ''+'' then rev acc # split_keys [] (drop_space (d # cs))
      else split_keys (c # acc) (d # cs))"

text \<open>A comprehension whose body may raise: the first error wins.\<close>

fun collect :: "('a \<Rightarrow> error + 'b) \<Rightarrow> 'a list \<Rightarrow> error + 'b list" where
  "collect f [] = Inr []"
| "collect f (x # xs) =
     (case f x of
        Inl e \<Rightarrow> Inl e
      | Inr y \<Rightarrow> (case collect f xs of Inl e \<Rightarrow> Inl e | Inr ys \<Rightarrow> Inr (y # ys)))"

definition parse_hotkey :: "backend \<Rightarrow> key \<Rightarrow> error + int list list list" where
  "parse_hotkey be hotkey =
     (case hotkey of
        KNum n \<Rightarrow>
          (case key_to_scan_codes be hotkey True of
             Inl e \<Rightarrow> Inl e | Inr scan_codes \<Rightarrow> Inr [[scan_codes]])
      | KStr s \<Rightarrow>
          if length s = 1 then
            (case key_to_scan_codes be hotkey True of
               Inl e \<Rightarrow> Inl e | Inr scan_codes \<Rightarrow> Inr [[scan_codes]])
          else
            collect (\<lambda>step. collect (\<lambda>k. key_to_scan_codes be (KStr k) True)
                                    (split_keys [] step))
                    (split_steps [] s))"

section \<open>Sending synthetic events\<close>

text \<open>
  A stateful function returns its outcome together with the state it leaves behind;
  the state is kept when an exception is raised.
\<close>

type_synonym 'a action = "kstate \<Rightarrow> (error + 'a) \<times> kstate"

text \<open>
  The inner loops of \<^verbatim>\<open>send\<close>: \<^verbatim>\<open>_os_keyboard.press(scan_codes[0])\<close> for each key of a
  step; an empty tuple of scan codes raises \<^verbatim>\<open>IndexError\<close>.
\<close>

fun emit_keys :: "(int \<Rightarrow> os_call) \<Rightarrow> int list list \<Rightarrow> unit action" where
  "emit_keys mk [] s = (Inr (), s)"
| "emit_keys mk (scan_codes # rest) s =
     (case scan_codes of
        [] \<Rightarrow> (Inl IndexError, s)
      | c # cs \<Rightarrow> emit_keys mk rest (s\<lparr>os_log := os_log s @ [mk c]\<rparr>))"

fun send_steps :: "int list list list \<Rightarrow> bool \<Rightarrow> bool \<Rightarrow> unit action" where
  "send_steps [] do_press do_release s = (Inr (), s)"
| "send_steps (step # rest) do_press do_release s =
     (case (if do_press then emit_keys OsPress step s else (Inr (), s)) of
        (Inl e, s1) \<Rightarrow> (Inl e, s1)
      | (Inr u, s1) \<Rightarrow>
          (case (if do_release then emit_keys OsRelease (rev step) s1 else (Inr (), s1)) of
             (Inl e, s2) \<Rightarrow> (Inl e, s2)
           | (Inr u, s2) \<Rightarrow> send_steps rest do_press do_release s2))"

definition send :: "backend \<Rightarrow> key \<Rightarrow> bool \<Rightarrow> bool \<Rightarrow> unit action" where
  "send be hotkey do_press do_release s =
     (case parse_hotkey be hotkey of
        Inl e \<Rightarrow> (Inl e, s\<lparr>is_replaying := True\<rparr>)
      | Inr parsed \<Rightarrow>
          (case send_steps parsed do_press do_release (s\<lparr>is_replaying := True\<rparr>) of
             (Inl e, s1) \<Rightarrow> (Inl e, s1)
           | (Inr u, s1) \<Rightarrow> (Inr (), s1\<lparr>is_replaying := False\<rparr>)))"

definition press :: "backend \<Rightarrow> key \<Rightarrow> unit action" where
  "press be hotkey = send be hotkey True False"

definition release :: "backend \<Rightarrow> key \<Rightarrow> unit action" where
  "release be hotkey = send be hotkey False True"


section \<open>Dispatch tables\<close>

text \<open>
  A \<^verbatim>\<open>defaultdict(list)\<close>: reading a missing key yields the empty list and inserts the
  key; \<^verbatim>\<open>list.remove\<close> raises \<^verbatim>\<open>ValueError\<close> when the element is absent.
\<close>

definition dd_get :: "('k \<times> 'v list) list \<Rightarrow> 'k \<Rightarrow> 'v list" where
  "dd_get m k = (case map_of m k of None \<Rightarrow> [] | Some v \<Rightarrow> v)"

definition dd_touch :: "('k \<times> 'v list) list \<Rightarrow> 'k \<Rightarrow> ('k \<times> 'v list) list" where
  "dd_touch m k = (case map_of m k of None \<Rightarrow> m @ [(k, [])] | Some v \<Rightarrow> m)"

definition dd_append :: "('k \<times> 'v list) list \<Rightarrow> 'k \<Rightarrow> 'v \<Rightarrow> ('k \<times> 'v list) list" where
  "dd_append m k v = AList.update k (dd_get m k @ [v]) m"

definition dd_remove :: "('k \<times> 'v list) list \<Rightarrow> 'k \<Rightarrow> 'v \<Rightarrow> error + ('k \<times> 'v list) list" where
  "dd_remove m k v =
     (if v \<in> set (dd_get m k) then Inr (AList.update k (remove1 v (dd_get m k)) m)
      else Inl ValueError)"

definition container :: "bool \<Rightarrow> kstate \<Rightarrow> (int list \<times> hk_handler list) list" where
  "container supp s = (if supp then blocking_hotkeys s else nonblocking_hotkeys s)"

definition set_container :: "bool \<Rightarrow> (int list \<times> hk_handler list) list \<Rightarrow> kstate \<Rightarrow> kstate" where
  "set_container supp m s =
     (if supp then s\<lparr>blocking_hotkeys := m\<rparr> else s\<lparr>nonblocking_hotkeys := m\<rparr>)"

definition key_store :: "bool \<Rightarrow> kstate \<Rightarrow> (int \<times> hook_fn list) list" where
  "key_store supp s = (if supp then blocking_keys s else nonblocking_keys s)"

definition set_key_store :: "bool \<Rightarrow> (int \<times> hook_fn list) list \<Rightarrow> kstate \<Rightarrow> kstate" where
  "set_key_store supp m s =
     (if supp then s\<lparr>blocking_keys := m\<rparr> else s\<lparr>nonblocking_keys := m\<rparr>)"

text \<open>The inner loop of lines 716 to 718 and 723 to 725: \<open>d\<close> is \<open>1\<close> or \<open>-1\<close>.\<close>

definition count_modifiers :: "backend \<Rightarrow> int \<Rightarrow> int list \<Rightarrow> (int \<Rightarrow> int) \<Rightarrow> (int \<Rightarrow> int)" where
  "count_modifiers be d scan_codes f =
     fold (\<lambda>sc g. if is_modifier be sc then g(sc := g sc + d) else g) scan_codes f"

fun add_hotkey_step :: "backend \<Rightarrow> hk_handler \<Rightarrow> int list list \<Rightarrow> bool \<Rightarrow> kstate \<Rightarrow> kstate" where
  "add_hotkey_step be h [] supp s = s"
| "add_hotkey_step be h (scan_codes # rest) supp s =
     add_hotkey_step be h rest supp
       (set_container supp (dd_append (container supp s) scan_codes h)
          (s\<lparr>filtered_modifiers := count_modifiers be 1 scan_codes (filtered_modifiers s)\<rparr>))"

text \<open>The \<^verbatim>\<open>remove\<close> closure of \<^verbatim>\<open>_add_hotkey_step\<close> (lines 721 to 726).\<close>

fun remove_step :: "backend \<Rightarrow> hk_handler \<Rightarrow> int list list \<Rightarrow> bool \<Rightarrow> unit action" where
  "remove_step be h [] supp s = (Inr (), s)"
| "remove_step be h (scan_codes # rest) supp s =
     (case dd_remove (container supp s) scan_codes h of
        Inl e \<Rightarrow>
          (Inl e, set_container supp (dd_touch (container supp s) scan_codes)
                    (s\<lparr>filtered_modifiers :=
                         count_modifiers be (- 1) scan_codes (filtered_modifiers s)\<rparr>))
      | Inr m \<Rightarrow>
          remove_step be h rest supp
            (set_container supp m
               (s\<lparr>filtered_modifiers :=
                    count_modifiers be (- 1) scan_codes (filtered_modifiers s)\<rparr>)))"

definition run_step_remover :: "backend \<Rightarrow> step_remover \<Rightarrow> unit action" where
  "run_step_remover be r s = (case r of StepRemover h combinations supp \<Rightarrow> remove_step be h combinations supp s)"

section \<open>Listener lifecycle and global hooks\<close>

text \<open>\<^verbatim>\<open>_KeyboardListener.init\<close> (lines 326 to 340).\<close>

definition init :: "kstate \<Rightarrow> kstate" where
  "init s = s\<lparr>active_modifiers := {}, blocking_hooks := [], blocking_keys := [],
              nonblocking_keys := [], blocking_hotkeys := [], nonblocking_hotkeys := [],
              filtered_modifiers := (\<lambda>c. 0), is_replaying := False,
              modifier_states := Map.empty\<rparr>"

text \<open>
  Modelled from the spec: \<^verbatim>\<open>start_if_necessary\<close>, \<^verbatim>\<open>add_handler\<close> and \<^verbatim>\<open>remove_handler\<close> of
  the generic listener base class, which is not among the sources. Starting is
  idempotent and initialises the listener on the first call; a handler is a non-blocking
  subscriber kept in registration order.
\<close>

definition start_if_necessary :: "kstate \<Rightarrow> kstate" where
  "start_if_necessary s = (if listening s then s else (init s)\<lparr>listening := True\<rparr>)"

definition add_handler :: "hook_fn \<Rightarrow> kstate \<Rightarrow> kstate" where
  "add_handler cb s = (let s1 = start_if_necessary s in s1\<lparr>handlers := handlers s1 @ [cb]\<rparr>)"

definition remove_handler :: "hook_fn \<Rightarrow> kstate \<Rightarrow> kstate" where
  "remove_handler cb s = s\<lparr>handlers := removeAll cb (handlers s)\<rparr>"

text \<open>\<^verbatim>\<open>hook\<close> (lines 570 to 599) with the default \<^verbatim>\<open>on_remove\<close>.\<close>

definition hook :: "hook_fn \<Rightarrow> bool \<Rightarrow> kstate \<Rightarrow> hooks_remover \<times> kstate" where
  "hook cb supp s =
     (let s1 = (if supp then (let s0 = start_if_necessary s
                             in s0\<lparr>blocking_hooks := blocking_hooks s0 @ [cb]\<rparr>)
                else add_handler cb s);
          rem = HookRemover (next_id s1) cb supp
      in (rem,
          s1\<lparr>next_id := Suc (next_id s1),
              hooks := (hooks s1)(HookByCallback cb \<mapsto> rem,
                                  HookByRemover (next_id s1) \<mapsto> rem)\<rparr>))"

fun remove_key_hooks :: "hook_fn \<Rightarrow> int list \<Rightarrow> bool \<Rightarrow> unit action" where
  "remove_key_hooks cb [] supp s = (Inr (), s)"
| "remove_key_hooks cb (sc # rest) supp s =
     (case dd_remove (key_store supp s) sc cb of
        Inl e \<Rightarrow> (Inl e, set_key_store supp (dd_touch (key_store supp s) sc) s)
      | Inr m \<Rightarrow> remove_key_hooks cb rest supp (set_key_store supp m s))"

text \<open>The \<^verbatim>\<open>remove_\<close> closures of \<^verbatim>\<open>hook\<close> (lines 593 to 597) and \<^verbatim>\<open>hook_key\<close> (628 to 633).\<close>

definition run_hooks_remover :: "hooks_remover \<Rightarrow> unit action" where
  "run_hooks_remover r s =
     (case r of
        HookRemover rid cb supp \<Rightarrow>
          (let s1 = s\<lparr>hooks := (hooks s)(HookByCallback cb := None, HookByRemover rid := None)\<rparr>
           in if supp then
                (if cb \<in> set (blocking_hooks s1)
                 then (Inr (), s1\<lparr>blocking_hooks := remove1 cb (blocking_hooks s1)\<rparr>)
                 else (Inl ValueError, s1))
              else (Inr (), remove_handler cb s1))
      | KeyHookRemover rid k cb supp scan_codes \<Rightarrow>
          remove_key_hooks cb scan_codes supp
            (s\<lparr>hooks := (hooks s)(HookByCallback cb := None, HookByKey k := None,
                                   HookByRemover rid := None)\<rparr>))"

fun append_key_hooks :: "hook_fn \<Rightarrow> int list \<Rightarrow> bool \<Rightarrow> kstate \<Rightarrow> kstate" where
  "append_key_hooks cb [] supp s = s"
| "append_key_hooks cb (sc # rest) supp s =
     append_key_hooks cb rest supp (set_key_store supp (dd_append (key_store supp s) sc cb) s)"

definition hook_key :: "backend \<Rightarrow> key \<Rightarrow> hook_fn \<Rightarrow> bool \<Rightarrow> hooks_remover action" where
  "hook_key be k cb supp s =
     (let s1 = start_if_necessary s in
      case key_to_scan_codes be k True of
        Inl e \<Rightarrow> (Inl e, s1)
      | Inr scan_codes \<Rightarrow>
          (let s2 = append_key_hooks cb scan_codes supp s1;
               rem = KeyHookRemover (next_id s2) k cb supp scan_codes
           in (Inr rem,
               s2\<lparr>next_id := Suc (next_id s2),
                   hooks := (hooks s2)(HookByCallback cb \<mapsto> rem, HookByKey k \<mapsto> rem,
                                       HookByRemover (next_id s2) \<mapsto> rem)\<rparr>)))"

definition unhook :: "hooks_key \<Rightarrow> unit action" where
  "unhook remove s =
     (case hooks s remove of
        None \<Rightarrow> (Inl KeyError, s)
      | Some r \<Rightarrow> run_hooks_remover r s)"


section \<open>Hotkeys\<close>

text \<open>\<^verbatim>\<open>parse_hotkey_combinations\<close>: per step, the sorted tuples of \<^verbatim>\<open>itertools.product\<close>.\<close>

definition combine_step :: "int list list \<Rightarrow> int list list" where
  "combine_step step = map sort (product_lists step)"

definition parse_hotkey_combinations :: "backend \<Rightarrow> key \<Rightarrow> error + int list list list" where
  "parse_hotkey_combinations be hotkey =
     (case parse_hotkey be hotkey of Inl e \<Rightarrow> Inl e | Inr parsed \<Rightarrow> Inr (map combine_step parsed))"

text \<open>Calling the user's callback: the call is recorded, its truth value comes from the backend.\<close>

definition call_callback :: "backend \<Rightarrow> nat \<Rightarrow> kstate \<Rightarrow> bool \<times> kstate" where
  "call_callback be cb s = (user_callback be cb (length (calls s)), s\<lparr>calls := calls s @ [cb]\<rparr>)"

definition upd_reg :: "nat \<Rightarrow> (hk_reg \<Rightarrow> hk_reg) \<Rightarrow> kstate \<Rightarrow> kstate" where
  "upd_reg reg f s = s\<lparr>hk_states := (hk_states s)(reg := f (hk_states s reg))\<rparr>"

text \<open>Calling \<^verbatim>\<open>state.remove_catch_misses\<close>: \<open>None\<close> stands for \<^verbatim>\<open>lambda: None\<close>.\<close>

definition call_remove_catch_misses :: "nat \<Rightarrow> unit action" where
  "call_remove_catch_misses reg s =
     (case remove_catch_misses (hk_states s reg) of
        None \<Rightarrow> (Inr (), s)
      | Some r \<Rightarrow> run_hooks_remover r s)"

text \<open>Calling \<^verbatim>\<open>state.remove_last_step\<close>: \<open>None\<close> is Python's \<^verbatim>\<open>None\<close>, which is not callable.\<close>

definition call_remove_last_step :: "backend \<Rightarrow> nat \<Rightarrow> unit action" where
  "call_remove_last_step be reg s =
     (case remove_last_step (hk_states s reg) of
        None \<Rightarrow> (Inl TypeError, s)
      | Some r \<Rightarrow> run_step_remover be r s)"

text \<open>
  \<^verbatim>\<open>set_index\<close> (lines 821 to 857), in its two halves: the catch-all hook is swapped
  (lines 824 to 832), then the handler of the step is hooked (lines 834 to 857). \<open>now\<close>
  is the reading of the monotonic clock; all readings during one call into the library
  are taken to be the same instant.
\<close>

definition swap_catch_misses :: "nat \<Rightarrow> nat \<Rightarrow> unit action" where
  "swap_catch_misses reg new_index s =
     (if new_index = 0 then
        (case call_remove_catch_misses reg s of
           (Inl e, s2) \<Rightarrow> (Inl e, s2)
         | (Inr u, s2) \<Rightarrow> (Inr (), upd_reg reg (\<lambda>r. r\<lparr>remove_catch_misses := None\<rparr>) s2))
      else if new_index = 1 then
        (case call_remove_catch_misses reg s of
           (Inl e, s2) \<Rightarrow> (Inl e, s2)
         | (Inr u, s2) \<Rightarrow>
             (case hook (CatchMisses reg) True s2 of
                (rem, s3) \<Rightarrow>
                  (Inr (), upd_reg reg (\<lambda>r. r\<lparr>remove_catch_misses := Some rem\<rparr>) s3)))
      else (Inr (), s))"

definition hook_step :: "backend \<Rightarrow> real \<Rightarrow> nat \<Rightarrow> nat \<Rightarrow> bool action" where
  "hook_step be now reg new_index s =
     (let r = hk_states s reg in
      if index r < length (steps r) then
        (let combinations = steps r ! index r;
             handler = (if int new_index = int (length (steps r)) - 1
                        then LastStep (next_id s) reg combinations
                        else MidStep (next_id s) reg (index r + 1) combinations);
             s5 = add_hotkey_step be handler combinations (suppress r)
                    (s\<lparr>next_id := Suc (next_id s)\<rparr>)
         in (Inr False,
             upd_reg reg (\<lambda>r. r\<lparr>remove_last_step :=
                                     Some (StepRemover handler combinations (suppress r)),
                                  last_update := now\<rparr>) s5))
      else (Inl IndexError, s))"

definition set_index :: "backend \<Rightarrow> real \<Rightarrow> nat \<Rightarrow> nat \<Rightarrow> bool action" where
  "set_index be now reg new_index s =
     (case swap_catch_misses reg new_index (upd_reg reg (\<lambda>r. r\<lparr>index := new_index\<rparr>) s) of
        (Inl e, s4) \<Rightarrow> (Inl e, s4)
      | (Inr u, s4) \<Rightarrow> hook_step be now reg new_index s4)"

text \<open>The replay loop of \<^verbatim>\<open>catch_misses\<close> (lines 810 to 814).\<close>

fun replay_events :: "backend \<Rightarrow> event list \<Rightarrow> unit action" where
  "replay_events be [] s = (Inr (), s)"
| "replay_events be (ev # rest) s =
     (case (if event_type ev = KEY_DOWN then press be (KNum (scan_code ev)) s
            else release be (KNum (scan_code ev)) s) of
        (Inl e, s1) \<Rightarrow> (Inl e, s1)
      | (Inr u, s1) \<Rightarrow> replay_events be rest s1)"

text \<open>\<^verbatim>\<open>allowed_keys_by_step[i]\<close> (lines 860 to 863).\<close>

definition allowed_keys :: "int list list list \<Rightarrow> nat \<Rightarrow> int set" where
  "allowed_keys stps i = set (concat (stps ! i))"

text \<open>
  The condition of \<^verbatim>\<open>catch_misses\<close> (lines 799 to 806); indexing
  \<^verbatim>\<open>allowed_keys_by_step\<close> beyond its end raises \<^verbatim>\<open>IndexError\<close>.
\<close>

definition miss_condition :: "real \<Rightarrow> hk_reg \<Rightarrow> event \<Rightarrow> bool \<Rightarrow> error + bool" where
  "miss_condition now r ev force_fail =
     (if event_type ev = trigger r \<and> index r \<noteq> 0 then
        (if index r < length (steps r) then
           Inr (scan_code ev \<notin> allowed_keys (steps r) (index r)
                \<or> (timeout r \<noteq> 0 \<and> now - last_update r \<ge> timeout r) \<or> force_fail)
         else Inl IndexError)
      else Inr ((timeout r \<noteq> 0 \<and> now - last_update r \<ge> timeout r) \<or> force_fail))"

definition catch_misses :: "backend \<Rightarrow> real \<Rightarrow> nat \<Rightarrow> event \<Rightarrow> bool \<Rightarrow> bool action" where
  "catch_misses be now reg ev force_fail s =
     (case miss_condition now (hk_states s reg) ev force_fail of
        Inl e \<Rightarrow> (Inl e, s)
      | Inr False \<Rightarrow> (Inr True, s)
      | Inr True \<Rightarrow>
          (case call_remove_last_step be reg s of
             (Inl e, s1) \<Rightarrow> (Inl e, s1)
           | (Inr u, s1) \<Rightarrow>
               (case replay_events be (suppressed_events (hk_states s1 reg)) s1 of
                  (Inl e, s2) \<Rightarrow> (Inl e, s2)
                | (Inr u, s2) \<Rightarrow>
                    (case set_index be now reg 0
                            (upd_reg reg (\<lambda>r. r\<lparr>suppressed_events := []\<rparr>) s2) of
                       (Inl e, s3) \<Rightarrow> (Inl e, s3)
                     | (Inr b, s3) \<Rightarrow> (Inr True, s3)))))"

text \<open>
  The handlers installed by \<^verbatim>\<open>add_hotkey\<close>: the lambda of line 780, the handler of the
  last step (lines 835 to 844) and the handler of an earlier step (lines 848 to 853).
\<close>

definition run_hk_handler :: "backend \<Rightarrow> real \<Rightarrow> hk_handler \<Rightarrow> event \<Rightarrow> bool action" where
  "run_hk_handler be now h ev s =
     (case h of
        SingleStep hid etype cb \<Rightarrow>
          if etype = KEY_DOWN \<and> event_type ev = KEY_UP
             \<and> scan_code ev \<in> dom (logically_pressed_keys s)
          then (Inr True, s)
          else if etype = event_type ev
          then (case call_callback be cb s of (b, s1) \<Rightarrow> (Inr b, s1))
          else (Inr False, s)
      | LastStep hid reg combinations \<Rightarrow>
          (case (if event_type ev = KEY_UP then
                   (case remove_step be h combinations (suppress (hk_states s reg)) s of
                      (Inl e, s1) \<Rightarrow> (Inl e, s1)
                    | (Inr u, s1) \<Rightarrow>
                        (case set_index be now reg 0 s1 of
                           (Inl e, s2) \<Rightarrow> (Inl e, s2)
                         | (Inr b, s2) \<Rightarrow> (Inr (), s2)))
                 else (Inr (), s)) of
             (Inl e, s3) \<Rightarrow> (Inl e, s3)
           | (Inr u, s3) \<Rightarrow>
               (case (if event_type ev = trigger (hk_states s3 reg)
                      then call_callback be (callback (hk_states s3 reg)) s3
                      else (False, s3)) of
                  (accept, s4) \<Rightarrow>
                    if accept then catch_misses be now reg ev True s4
                    else (Inr False, upd_reg reg (\<lambda>r. r\<lparr>suppressed_events := [ev]\<rparr>) s4)))
      | MidStep hid reg new_index combinations \<Rightarrow>
          (case (if event_type ev = KEY_UP then
                   (case remove_step be h combinations (suppress (hk_states s reg)) s of
                      (Inl e, s1) \<Rightarrow> (Inl e, s1)
                    | (Inr u, s1) \<Rightarrow>
                        (case set_index be now reg new_index s1 of
                           (Inl e, s2) \<Rightarrow> (Inl e, s2)
                         | (Inr b, s2) \<Rightarrow> (Inr (), s2)))
                 else (Inr (), s)) of
             (Inl e, s3) \<Rightarrow> (Inl e, s3)
           | (Inr u, s3) \<Rightarrow>
               (Inr False,
                upd_reg reg (\<lambda>r. r\<lparr>suppressed_events := suppressed_events r @ [ev]\<rparr>) s3)))"

text \<open>The \<^verbatim>\<open>remove_\<close> closures of \<^verbatim>\<open>add_hotkey\<close> (lines 782 to 786 and 865 to 870).\<close>

definition pop_hotkeys :: "key \<Rightarrow> nat \<Rightarrow> nat \<Rightarrow> kstate \<Rightarrow> kstate" where
  "pop_hotkeys hotkey rid cb s =
     s\<lparr>hotkeys := (hotkeys s)(HotkeyByHotkey hotkey := None, HotkeyByRemover rid := None,
                               HotkeyByCallback cb := None)\<rparr>"

definition run_hotkey_remover :: "backend \<Rightarrow> hotkey_remover \<Rightarrow> unit action" where
  "run_hotkey_remover be r s =
     (case r of
        SingleHotkeyRemover rid hotkey cb remove_step_closure \<Rightarrow>
          (case run_step_remover be remove_step_closure s of
             (Inl e, s1) \<Rightarrow> (Inl e, s1)
           | (Inr u, s1) \<Rightarrow> (Inr (), pop_hotkeys hotkey rid cb s1))
      | MultiHotkeyRemover rid hotkey cb reg \<Rightarrow>
          (case call_remove_catch_misses reg s of
             (Inl e, s1) \<Rightarrow> (Inl e, s1)
           | (Inr u, s1) \<Rightarrow>
               (case call_remove_last_step be reg s1 of
                  (Inl e, s2) \<Rightarrow> (Inl e, s2)
                | (Inr u, s2) \<Rightarrow> (Inr (), pop_hotkeys hotkey rid cb s2))))"

text \<open>
  \<^verbatim>\<open>add_hotkey\<close> (lines 730 to 874) with \<^verbatim>\<open>args=()\<close>. The initial \<^verbatim>\<open>last_update\<close> of
  \<^verbatim>\<open>float('-inf')\<close> is overwritten by \<^verbatim>\<open>set_index(0)\<close> before anything reads it.
\<close>

definition add_hotkey ::
  "backend \<Rightarrow> real \<Rightarrow> key \<Rightarrow> nat \<Rightarrow> bool \<Rightarrow> real \<Rightarrow> bool \<Rightarrow> hotkey_remover action" where
  "add_hotkey be now hotkey cb supp tmo trigger_on_release s =
     (let s1 = start_if_necessary s in
      case parse_hotkey_combinations be hotkey of
        Inl e \<Rightarrow> (Inl e, s1)
      | Inr stps \<Rightarrow>
          (let etype = (if trigger_on_release then KEY_UP else KEY_DOWN) in
           if length stps = 1 then
             (let handler = SingleStep (next_id s1) etype cb;
                  s2 = add_hotkey_step be handler (stps ! 0) supp (s1\<lparr>next_id := Suc (next_id s1)\<rparr>);
                  rem = SingleHotkeyRemover (next_id s2) hotkey cb
                          (StepRemover handler (stps ! 0) supp)
              in (Inr rem,
                  s2\<lparr>next_id := Suc (next_id s2),
                      hotkeys := (hotkeys s2)(HotkeyByHotkey hotkey \<mapsto> rem,
                                              HotkeyByRemover (next_id s2) \<mapsto> rem,
                                              HotkeyByCallback cb \<mapsto> rem)\<rparr>))
           else
             (let reg = next_id s1;
                  s2 = (s1\<lparr>next_id := Suc (next_id s1)\<rparr>)
                         \<lparr>hk_states := (hk_states s1)(reg :=
                            \<lparr>steps = stps, suppress = supp, timeout = tmo, trigger = etype,
                             callback = cb, index = 0, remove_catch_misses = None,
                             remove_last_step = None, suppressed_events = [],
                             last_update = now\<rparr>)\<rparr>
              in case set_index be now reg 0 s2 of
                   (Inl e, s3) \<Rightarrow> (Inl e, s3)
                 | (Inr b, s3) \<Rightarrow>
                     (let rem = MultiHotkeyRemover (next_id s3) hotkey cb reg
                      in (Inr rem,
                          s3\<lparr>next_id := Suc (next_id s3),
                              hotkeys := (hotkeys s3)(HotkeyByHotkey hotkey \<mapsto> rem,
                                                      HotkeyByRemover (next_id s3) \<mapsto> rem,
                                                      HotkeyByCallback cb \<mapsto> rem)\<rparr>)))))"

definition remove_hotkey :: "backend \<Rightarrow> hotkeys_key \<Rightarrow> unit action" where
  "remove_hotkey be hotkey_or_callback s =
     (case hotkeys s hotkey_or_callback of
        None \<Rightarrow> (Inl KeyError, s)
      | Some r \<Rightarrow> run_hotkey_remover be r s)"


section \<open>The direct callback\<close>

definition run_hook_fn :: "backend \<Rightarrow> real \<Rightarrow> hook_fn \<Rightarrow> event \<Rightarrow> bool action" where
  "run_hook_fn be now h ev s =
     (case h of
        UserHook n \<Rightarrow> (Inr (user_hook be n ev), s)
      | CatchMisses reg \<Rightarrow> catch_misses be now reg ev False s)"

text \<open>
  The transition table of lines 283 to 324: send a fake key press, accept the event
  (\<open>None\<close> leaves the decision as it is), next state.
\<close>

fun transition_table :: "mod_state \<Rightarrow> event_type \<Rightarrow> origin \<Rightarrow> bool \<times> bool option \<times> mod_state" where
  "transition_table Free KEY_UP Modifier = (False, Some True, Free)"
| "transition_table Free KEY_DOWN Modifier = (False, Some False, Pending)"
| "transition_table Pending KEY_UP Modifier = (True, Some True, Free)"
| "transition_table Pending KEY_DOWN Modifier = (False, Some True, Allowed)"
| "transition_table Suppressed KEY_UP Modifier = (False, Some False, Free)"
| "transition_table Suppressed KEY_DOWN Modifier = (False, Some False, Suppressed)"
| "transition_table Allowed KEY_UP Modifier = (False, Some True, Free)"
| "transition_table Allowed KEY_DOWN Modifier = (False, Some True, Allowed)"
| "transition_table Free KEY_UP Hotkey = (False, None, Free)"
| "transition_table Free KEY_DOWN Hotkey = (False, None, Free)"
| "transition_table Pending KEY_UP Hotkey = (False, None, Suppressed)"
| "transition_table Pending KEY_DOWN Hotkey = (False, None, Suppressed)"
| "transition_table Suppressed KEY_UP Hotkey = (False, None, Suppressed)"
| "transition_table Suppressed KEY_DOWN Hotkey = (False, None, Suppressed)"
| "transition_table Allowed KEY_UP Hotkey = (False, None, Allowed)"
| "transition_table Allowed KEY_DOWN Hotkey = (False, None, Allowed)"
| "transition_table Free KEY_UP Other = (False, Some True, Free)"
| "transition_table Free KEY_DOWN Other = (False, Some True, Free)"
| "transition_table Pending KEY_UP Other = (True, Some True, Allowed)"
| "transition_table Pending KEY_DOWN Other = (True, Some True, Allowed)"
| "transition_table Suppressed KEY_UP Other = (False, Some False, Allowed)"
| "transition_table Suppressed KEY_DOWN Other = (True, Some True, Allowed)"
| "transition_table Allowed KEY_UP Other = (False, Some True, Allowed)"
| "transition_table Allowed KEY_DOWN Other = (False, Some True, Allowed)"

text \<open>The loop of lines 406 to 411 over the sorted modifiers.\<close>

fun apply_transitions ::
  "backend \<Rightarrow> event_type \<Rightarrow> origin \<Rightarrow> int list \<Rightarrow> bool \<Rightarrow> bool action" where
  "apply_transitions be etype orig [] accept s = (Inr accept, s)"
| "apply_transitions be etype orig (k # ks) accept s =
     (case transition_table
             (case modifier_states s k of None \<Rightarrow> Free | Some st \<Rightarrow> st) etype orig of
        (should_press, new_accept, new_state) \<Rightarrow>
          (case (if should_press then press be (KNum k) s else (Inr (), s)) of
             (Inl e, s1) \<Rightarrow> (Inl e, s1)
           | (Inr u, s1) \<Rightarrow>
               apply_transitions be etype orig ks
                 (case new_accept of None \<Rightarrow> accept | Some a \<Rightarrow> a)
                 (s1\<lparr>modifier_states := (modifier_states s1)(k \<mapsto> new_state)\<rparr>)))"

text \<open>Lines 374 to 381: the tables of pressed keys and the hotkey signature.\<close>

definition update_pressed :: "backend \<Rightarrow> event \<Rightarrow> kstate \<Rightarrow> int list \<times> kstate" where
  "update_pressed be ev s =
     (let s1 = (if event_type ev = KEY_DOWN then
                  s\<lparr>active_modifiers :=
                       (if is_modifier be (scan_code ev)
                        then insert (scan_code ev) (active_modifiers s)
                        else active_modifiers s),
                    pressed_events := AList.update (scan_code ev) ev (pressed_events s)\<rparr>
                else s);
          hotkey = sort (map fst (pressed_events s1));
          s2 = (if event_type ev = KEY_UP then
                  s1\<lparr>active_modifiers := active_modifiers s1 - {scan_code ev},
                     pressed_events := AList.delete (scan_code ev) (pressed_events s1)\<rparr>
                else s1)
      in (hotkey, s2))"

text \<open>
  \<^verbatim>\<open>all(hook(event) for hook in self.blocking_hooks)\<close>: the list is read at every step,
  as Python's list iterator does, because \<^verbatim>\<open>catch_misses\<close> may unhook itself while the
  list is walked.
\<close>

text \<open>No hook makes the list of blocking hooks longer, so the walk ends.\<close>

lemma blocking_hooks_set_container [simp]:
  "blocking_hooks (set_container supp m s) = blocking_hooks s"
  by (simp add: set_container_def)

lemma blocking_hooks_upd_reg [simp]: "blocking_hooks (upd_reg reg f s) = blocking_hooks s"
  by (simp add: upd_reg_def)

lemma blocking_hooks_remove_step:
  "remove_step be h combinations supp s = (r, s1) \<Longrightarrow> blocking_hooks s1 = blocking_hooks s"
  by (induction combinations arbitrary: s) (auto split: sum.splits)

lemma blocking_hooks_add_hotkey_step [simp]:
  "blocking_hooks (add_hotkey_step be h combinations supp s) = blocking_hooks s"
  by (induction combinations arbitrary: s) auto

lemma blocking_hooks_emit_keys:
  "emit_keys mk step s = (r, s1) \<Longrightarrow> blocking_hooks s1 = blocking_hooks s"
  by (induction step arbitrary: s) (auto split: list.splits)

lemma blocking_hooks_send_steps:
  "send_steps parsed do_press do_release s = (r, s1) \<Longrightarrow> blocking_hooks s1 = blocking_hooks s"
proof (induction parsed arbitrary: s)
  case Nil
  then show ?case by simp
next
  case (Cons step rest)
  then show ?case
    by (auto split: if_splits sum.splits prod.splits dest!: blocking_hooks_emit_keys)
qed

lemma blocking_hooks_send:
  "send be k do_press do_release s = (r, s1) \<Longrightarrow> blocking_hooks s1 = blocking_hooks s"
  by (auto simp: send_def split: sum.splits prod.splits dest!: blocking_hooks_send_steps)

lemma blocking_hooks_replay_events:
  "replay_events be evs s = (r, s1) \<Longrightarrow> blocking_hooks s1 = blocking_hooks s"
proof (induction evs arbitrary: s)
  case Nil
  then show ?case by simp
next
  case (Cons ev rest)
  then show ?case
    by (auto simp: press_def release_def split: if_splits sum.splits prod.splits
             dest!: blocking_hooks_send)
qed

lemma blocking_hooks_remove_key_hooks:
  "remove_key_hooks cb scan_codes supp s = (r, s1) \<Longrightarrow> blocking_hooks s1 = blocking_hooks s"
  by (induction scan_codes arbitrary: s) (auto simp: set_key_store_def split: sum.splits if_splits)

lemma blocking_hooks_run_hooks_remover:
  "run_hooks_remover rm s = (r, s1) \<Longrightarrow> length (blocking_hooks s1) \<le> length (blocking_hooks s)"
  by (cases rm)
     (auto simp: run_hooks_remover_def remove_handler_def length_remove1 Let_def
           split: if_splits dest!: blocking_hooks_remove_key_hooks)

lemma blocking_hooks_set_index_0:
  "set_index be now reg 0 s = (r, s1) \<Longrightarrow> length (blocking_hooks s1) \<le> length (blocking_hooks s)"
  by (auto simp: set_index_def swap_catch_misses_def hook_step_def
                 call_remove_catch_misses_def Let_def
           split: option.splits sum.splits prod.splits if_splits
           dest!: blocking_hooks_run_hooks_remover)

lemma blocking_hooks_catch_misses:
  assumes "catch_misses be now reg ev force_fail s = (r, s1)"
  shows "length (blocking_hooks s1) \<le> length (blocking_hooks s)"
proof (cases "miss_condition now (hk_states s reg) ev force_fail")
  case (Inl e)
  with assms show ?thesis by (simp add: catch_misses_def)
next
  case (Inr fire)
  show ?thesis
  proof (cases fire)
    case False
    with Inr assms show ?thesis by (simp add: catch_misses_def)
  next
    case True
    obtain r1 s2 where rl: "call_remove_last_step be reg s = (r1, s2)"
      by (cases "call_remove_last_step be reg s")
    have b2: "blocking_hooks s2 = blocking_hooks s"
      using rl
      by (auto simp: call_remove_last_step_def run_step_remover_def
               split: option.splits step_remover.splits dest!: blocking_hooks_remove_step)
    show ?thesis
    proof (cases r1)
      case (Inl e)
      with Inr True rl assms b2 show ?thesis by (simp add: catch_misses_def)
    next
      case ok1: (Inr u)
      obtain r2 s3 where rp: "replay_events be (suppressed_events (hk_states s2 reg)) s2 = (r2, s3)"
        by (cases "replay_events be (suppressed_events (hk_states s2 reg)) s2")
      have b3: "blocking_hooks s3 = blocking_hooks s2"
        using rp by (rule blocking_hooks_replay_events)
      show ?thesis
      proof (cases r2)
        case (Inl e)
        with Inr True rl ok1 rp assms b2 b3 show ?thesis by (simp add: catch_misses_def)
      next
        case ok2: (Inr u2)
        obtain r3 s4 where si:
          "set_index be now reg 0 (upd_reg reg (\<lambda>r. r\<lparr>suppressed_events := []\<rparr>) s3) = (r3, s4)"
          by (cases "set_index be now reg 0 (upd_reg reg (\<lambda>r. r\<lparr>suppressed_events := []\<rparr>) s3)")
        have b4: "length (blocking_hooks s4) \<le> length (blocking_hooks s3)"
          using blocking_hooks_set_index_0 [OF si] by simp
        have "s1 = s4"
          using Inr True rl ok1 rp ok2 si assms
          by (auto simp: catch_misses_def split: sum.splits)
        with b2 b3 b4 show ?thesis by simp
      qed
    qed
  qed
qed

lemma blocking_hooks_run_hook_fn:
  "run_hook_fn be now h ev s = (r, s1) \<Longrightarrow> length (blocking_hooks s1) \<le> length (blocking_hooks s)"
  by (cases h) (auto simp: run_hook_fn_def dest: blocking_hooks_catch_misses)

function run_blocking_hooks :: "backend \<Rightarrow> real \<Rightarrow> event \<Rightarrow> nat \<Rightarrow> bool action" where
  "run_blocking_hooks be now ev i s =
     (if i < length (blocking_hooks s) then
        (case run_hook_fn be now (blocking_hooks s ! i) ev s of
           (Inl e, s1) \<Rightarrow> (Inl e, s1)
         | (Inr b, s1) \<Rightarrow>
             if b then run_blocking_hooks be now ev (Suc i) s1 else (Inr False, s1))
      else (Inr True, s))"
  by pat_completeness auto
termination
proof (relation "measure (\<lambda>(be, now, ev, i, s). length (blocking_hooks s) - i)")
  show "wf (measure (\<lambda>(be, now, ev, i, s). length (blocking_hooks s) - i))" by simp
next
  fix be :: backend and now :: real and ev :: event and i :: nat and s x s1 :: kstate
    and b :: bool and r :: "error + bool"
  assume lt: "i < length (blocking_hooks s)"
    and run: "(r, s1) = run_hook_fn be now (blocking_hooks s ! i) ev s"
  have "length (blocking_hooks s1) \<le> length (blocking_hooks s)"
    using blocking_hooks_run_hook_fn [OF run [symmetric]] .
  with lt show "((be, now, ev, Suc i, s1), (be, now, ev, i, s))
        \<in> measure (\<lambda>(be, now, ev, i, s). length (blocking_hooks s) - i)"
    by simp
qed

text \<open>
  The loop of lines 384 to 386 over \<^verbatim>\<open>self.blocking_keys[scan_code]\<close>. No callable of the
  model changes that list, so it is walked as it was found.
\<close>

fun run_key_hooks :: "backend \<Rightarrow> real \<Rightarrow> event \<Rightarrow> hook_fn list \<Rightarrow> bool action" where
  "run_key_hooks be now ev [] s = (Inr True, s)"
| "run_key_hooks be now ev (key_hook # rest) s =
     (case run_hook_fn be now key_hook ev s of
        (Inl e, s1) \<Rightarrow> (Inl e, s1)
      | (Inr b, s1) \<Rightarrow> if b then run_key_hooks be now ev rest s1 else (Inr False, s1))"

text \<open>
  The comprehension of line 399 over \<^verbatim>\<open>self.blocking_hotkeys[hotkey]\<close>. The step handlers
  remove themselves from this list and append their successors to it while it is
  walked, so the list is read at every step; a walk that never reaches the end of the
  list has no result (\<open>None\<close>).
\<close>

partial_function (option) run_hotkey_callbacks ::
  "backend \<Rightarrow> real \<Rightarrow> event \<Rightarrow> int list \<Rightarrow> nat \<Rightarrow> bool list \<Rightarrow> kstate
     \<Rightarrow> ((error + bool list) \<times> kstate) option" where
  "run_hotkey_callbacks be now ev hotkey i results s =
     (if i < length (dd_get (blocking_hotkeys s) hotkey) then
        (case run_hk_handler be now (dd_get (blocking_hotkeys s) hotkey ! i) ev s of
           (Inl e, s1) \<Rightarrow> Some (Inl e, s1)
         | (Inr b, s1) \<Rightarrow> run_hotkey_callbacks be now ev hotkey (Suc i) (results @ [b]) s1)
      else Some (Inr results, s))"

text \<open>Lines 391 to 411: origin of the event and the modifier state machine.\<close>

definition hotkey_stage ::
  "backend \<Rightarrow> real \<Rightarrow> event \<Rightarrow> int list \<Rightarrow> kstate \<Rightarrow> ((error + bool) \<times> kstate) option" where
  "hotkey_stage be now ev hotkey s =
     (if blocking_hotkeys s \<noteq> [] then
        (if filtered_modifiers s (scan_code ev) \<noteq> 0 then
           Some (apply_transitions be (event_type ev) Modifier [scan_code ev] True s)
         else
           (case run_hotkey_callbacks be now ev hotkey 0 []
                   (s\<lparr>blocking_hotkeys := dd_touch (blocking_hotkeys s) hotkey\<rparr>) of
              None \<Rightarrow> None
            | Some (Inl e, s1) \<Rightarrow> Some (Inl e, s1)
            | Some (Inr callback_results, s1) \<Rightarrow>
                Some (apply_transitions be (event_type ev)
                        (if callback_results \<noteq> [] then Hotkey else Other)
                        (sorted_list_of_set
                           (if is_modifier be (scan_code ev)
                            then active_modifiers s \<union> {scan_code ev}
                            else active_modifiers s))
                        (if callback_results \<noteq> [] then list_all (\<lambda>b. b) callback_results
                         else True)
                        s1)))
      else Some (Inr True, s))"

text \<open>Lines 413 to 420: the table of logically pressed keys and the delivery queue.\<close>

definition finish_event :: "event \<Rightarrow> bool \<Rightarrow> kstate \<Rightarrow> kstate" where
  "finish_event ev accept s =
     (let s1 = (if accept then
                  (if event_type ev = KEY_DOWN then
                     s\<lparr>logically_pressed_keys := (logically_pressed_keys s)(scan_code ev \<mapsto> ev)\<rparr>
                   else if scan_code ev \<in> dom (logically_pressed_keys s) then
                     s\<lparr>logically_pressed_keys := (logically_pressed_keys s)(scan_code ev := None)\<rparr>
                   else s)
                else s)
      in s1\<lparr>queue := queue s1 @ [ev]\<rparr>)"

text \<open>The per-key stage, lines 383 to 386.\<close>

definition key_stage :: "backend \<Rightarrow> real \<Rightarrow> event \<Rightarrow> bool action" where
  "key_stage be now ev s =
     run_key_hooks be now ev (dd_get (blocking_keys s) (scan_code ev))
       (s\<lparr>blocking_keys := dd_touch (blocking_keys s) (scan_code ev)\<rparr>)"

text \<open>\<^verbatim>\<open>_KeyboardListener.direct_callback\<close> (lines 353 to 422).\<close>

definition direct_callback ::
  "backend \<Rightarrow> real \<Rightarrow> event \<Rightarrow> kstate \<Rightarrow> ((error + bool) \<times> kstate) option" where
  "direct_callback be now ev s =
     (if is_replaying s then Some (Inr True, s)
      else
        (case run_blocking_hooks be now ev 0 s of
           (Inl e, s1) \<Rightarrow> Some (Inl e, s1)
         | (Inr False, s1) \<Rightarrow> Some (Inr False, s1)
         | (Inr True, s1) \<Rightarrow>
             (case update_pressed be ev s1 of
                (hotkey, s2) \<Rightarrow>
                  (case key_stage be now ev s2 of
                     (Inl e, s3) \<Rightarrow> Some (Inl e, s3)
                   | (Inr False, s3) \<Rightarrow> Some (Inr False, s3)
                   | (Inr True, s3) \<Rightarrow>
                       (case hotkey_stage be now ev hotkey s3 of
                          None \<Rightarrow> None
                        | Some (Inl e, s4) \<Rightarrow> Some (Inl e, s4)
                        | Some (Inr accept, s4) \<Rightarrow>
                            Some (Inr accept, finish_event ev accept s4))))))"

section \<open>Word listeners and typed strings\<close>

text \<open>The \<^verbatim>\<open>state\<close> object of one word listener: \<^verbatim>\<open>current\<close> and \<^verbatim>\<open>time\<close>.\<close>

record word_state =
  current :: string
  wtime :: real

text \<open>
  The handler of \<^verbatim>\<open>add_word_listener\<close> (lines 1230 to 1245). It returns the new state and
  whether the callback was called; \<^verbatim>\<open>len(name)\<close> on a missing name raises \<^verbatim>\<open>TypeError\<close>.
\<close>

definition is_suffix :: "string \<Rightarrow> string \<Rightarrow> bool" where
  "is_suffix w cur = (length w \<le> length cur \<and> drop (length cur - length w) cur = w)"

definition word_handler ::
  "backend \<Rightarrow> string \<Rightarrow> string list \<Rightarrow> bool \<Rightarrow> real \<Rightarrow> event \<Rightarrow> word_state
     \<Rightarrow> (error + bool) \<times> word_state" where
  "word_handler be word triggers match_suffix tmo ev st =
     (if event_type ev = KEY_UP
         \<or> (case name ev of None \<Rightarrow> False | Some n \<Rightarrow> n \<in> set (all_modifiers be))
      then (Inr False, st)
      else
        (let st1 = (if tmo \<noteq> 0 \<and> time ev - wtime st > tmo then st\<lparr>current := []\<rparr> else st);
             st2 = st1\<lparr>wtime := time ev\<rparr>;
             matched = (current st2 = word \<or> (match_suffix \<and> is_suffix word (current st2)))
         in case name ev of
              None \<Rightarrow> (Inl TypeError, st2)
            | Some n \<Rightarrow>
                if n \<in> set triggers \<and> matched then (Inr True, st2\<lparr>current := []\<rparr>)
                else if length n > 1 then (Inr False, st2\<lparr>current := []\<rparr>)
                else (Inr False, st2\<lparr>current := current st2 @ n\<rparr>)))"

text \<open>
  Feeding a sequence of events to the handler, from the state \<^verbatim>\<open>add_word_listener\<close>
  creates; the result counts the calls of the callback.
\<close>

definition initial_word_state :: word_state where
  "initial_word_state = \<lparr>current = [], wtime = - 1\<rparr>"

fun word_listener_run ::
  "backend \<Rightarrow> string \<Rightarrow> string list \<Rightarrow> bool \<Rightarrow> real \<Rightarrow> event list \<Rightarrow> nat \<Rightarrow> word_state
     \<Rightarrow> (error + nat) \<times> word_state" where
  "word_listener_run be word triggers match_suffix tmo [] fired st = (Inr fired, st)"
| "word_listener_run be word triggers match_suffix tmo (ev # evs) fired st =
     (case word_handler be word triggers match_suffix tmo ev st of
        (Inl e, st1) \<Rightarrow> (Inl e, st1)
      | (Inr called, st1) \<Rightarrow>
          word_listener_run be word triggers match_suffix tmo evs
            (if called then Suc fired else fired) st1)"

section \<open>Hotkey names\<close>

text \<open>\<^verbatim>\<open>str.replace\<close> for a non-empty pattern: occurrences from the left, not overlapping.\<close>

function replace :: "string \<Rightarrow> string \<Rightarrow> string \<Rightarrow> string" where
  "replace old new [] = []"
| "replace old new (c # cs) =
     (if old \<noteq> [] \<and> take (length old) (c # cs) = old
      then new @ replace old new (drop (length old) (c # cs))
      else c # replace old new cs)"
  by pat_completeness auto
termination
  by (relation "measure (\<lambda>(old, new, t). length t)") auto

definition clean_name :: "string \<Rightarrow> string" where
  "clean_name e = replace ''+'' ''plus'' (replace ''right '' [] (replace ''left '' [] e))"

text \<open>\<^verbatim>\<open>modifiers.index(k) if k in modifiers else 5\<close>, paired with the name itself.\<close>

definition sorting_key :: "string \<Rightarrow> nat \<times> string" where
  "sorting_key k =
     (if k = ''ctrl'' then 0 else if k = ''alt'' then 1 else if k = ''shift'' then 2
      else if k = ''windows'' then 3 else 5, k)"

fun join :: "string \<Rightarrow> string list \<Rightarrow> string" where
  "join sep [] = []"
| "join sep [x] = x"
| "join sep (x # y # ys) = x @ sep @ join sep (y # ys)"

text \<open>
  \<^verbatim>\<open>get_hotkey_name\<close> (lines 1020 to 1049) on a given list of names. The set of clean
  names is the list without repetitions: the sorting key is different for different
  names, so the sorted result does not depend on the set's iteration order.
\<close>

definition get_hotkey_name :: "backend \<Rightarrow> string list \<Rightarrow> string" where
  "get_hotkey_name be names =
     join ''+'' (sort_key sorting_key (remdups (map (\<lambda>n. clean_name (normalize_name be n)) names)))"

text \<open>
  The order the docstring describes, written without the sorting key: the list
  \<^verbatim>\<open>modifiers\<close> of line 1047, the place of a name in a list, and when one name has to
  stand before another (a standard modifier before every other name and before the
  standard modifiers listed after it, two other names in the order of the strings).
\<close>

definition standard_modifiers :: "string list" where
  "standard_modifiers = [''ctrl'', ''alt'', ''shift'', ''windows'']"

fun position :: "'a \<Rightarrow> 'a list \<Rightarrow> nat" where
  "position x [] = 0"
| "position x (y # ys) = (if x = y then 0 else Suc (position x ys))"

definition listed_before :: "string \<Rightarrow> string \<Rightarrow> bool" where
  "listed_before a b =
     (if a \<in> set standard_modifiers
      then (b \<in> set standard_modifiers
              \<longrightarrow> position a standard_modifiers < position b standard_modifiers)
      else b \<notin> set standard_modifiers \<and> a < b)"


section \<open>Registry keys of a remover\<close>

text \<open>The keys under which \<^verbatim>\<open>add_hotkey\<close>, \<^verbatim>\<open>hook\<close> and \<^verbatim>\<open>hook_key\<close> store a remover.\<close>

definition hotkey_keys :: "hotkey_remover \<Rightarrow> hotkeys_key set" where
  "hotkey_keys r =
     (case r of
        SingleHotkeyRemover rid hotkey cb rs \<Rightarrow>
          {HotkeyByHotkey hotkey, HotkeyByRemover rid, HotkeyByCallback cb}
      | MultiHotkeyRemover rid hotkey cb reg \<Rightarrow>
          {HotkeyByHotkey hotkey, HotkeyByRemover rid, HotkeyByCallback cb})"

definition hooks_keys :: "hooks_remover \<Rightarrow> hooks_key set" where
  "hooks_keys r =
     (case r of
        HookRemover rid cb supp \<Rightarrow> {HookByCallback cb, HookByRemover rid}
      | KeyHookRemover rid k cb supp scan_codes \<Rightarrow>
          {HookByCallback cb, HookByKey k, HookByRemover rid})"



section \<open>A sample backend and sample states\<close>

text \<open>
  A small name table (identity normalisation, two control keys, two shift keys and a few
  letters), a user hook number 0 that vetoes every event, and callbacks that return a
  false value. \<open>idle_state\<close> is a started listener with nothing registered.
\<close>

definition demo_backend :: backend where
  "demo_backend =
     \<lparr>normalize_name = (\<lambda>n. n),
      sided_modifiers = [''ctrl'', ''alt'', ''shift'', ''windows''],
      all_modifiers = [''alt'', ''alt gr'', ''ctrl'', ''shift'', ''windows'',
                       ''left ctrl'', ''right ctrl'', ''left shift'', ''right shift''],
      map_name = map_of [(''a'', [(30, [])]), (''b'', [(48, [])]), (''c'', [(46, [])]),
                         (''left ctrl'', [(29, [])]), (''right ctrl'', [(97, [])]),
                         (''left shift'', [(42, [])]), (''right shift'', [(54, [])]),
                         (''space'', [(57, [])])],
      recursion_limit = 1000,
      user_hook = (\<lambda>n ev. n \<noteq> 0),
      user_callback = (\<lambda>c k. False)\<rparr>"

definition idle_reg :: hk_reg where
  "idle_reg = \<lparr>steps = [], suppress = False, timeout = 0, trigger = KEY_DOWN, callback = 0,
                index = 0, remove_catch_misses = None, remove_last_step = None,
                suppressed_events = [], last_update = 0\<rparr>"

definition idle_state :: kstate where
  "idle_state =
     \<lparr>listening = True, active_modifiers = {}, blocking_hooks = [], handlers = [],
      blocking_keys = [], nonblocking_keys = [], blocking_hotkeys = [],
      nonblocking_hotkeys = [], filtered_modifiers = (\<lambda>c. 0), is_replaying = False,
      modifier_states = Map.empty, pressed_events = [], logically_pressed_keys = Map.empty,
      queue = [], hooks = Map.empty, hotkeys = Map.empty, hk_states = (\<lambda>r. idle_reg),
      next_id = 0, os_log = [], calls = []\<rparr>"

definition key_event :: "event_type \<Rightarrow> int \<Rightarrow> string \<Rightarrow> real \<Rightarrow> event" where
  "key_event t sc n tm =
     \<lparr>event_type = t, scan_code = sc, name = Some n, time = tm, is_keypad = False, device = None\<rparr>"



text \<open>The state after \<^verbatim>\<open>add_hotkey('ctrl+a', cb7, suppress=True)\<close> on the idle listener.\<close>

definition ctrl_a_remover :: hotkey_remover where
  "ctrl_a_remover =
     SingleHotkeyRemover 1 (KStr ''ctrl+a'') 7
       (StepRemover (SingleStep 0 KEY_DOWN 7) [[29, 30], [30, 97]] True)"

definition registered_state :: kstate where
  "registered_state = idle_state
     \<lparr>blocking_hotkeys := [([29, 30], [SingleStep 0 KEY_DOWN 7]),
                           ([30, 97], [SingleStep 0 KEY_DOWN 7])],
      filtered_modifiers := (\<lambda>c. 0)(29 := 1, 97 := 1),
      hotkeys := [HotkeyByHotkey (KStr ''ctrl+a'') \<mapsto> ctrl_a_remover,
                  HotkeyByRemover 1 \<mapsto> ctrl_a_remover,
                  HotkeyByCallback 7 \<mapsto> ctrl_a_remover],
      next_id := 2\<rparr>"

definition ctrl_down :: event where
  "ctrl_down = key_event KEY_DOWN 29 ''ctrl'' 1"

definition ctrl_up :: event where
  "ctrl_up = key_event KEY_UP 29 ''ctrl'' 2"

text \<open>The state after the left control key went down: the modifier is pending.\<close>

definition pending_state :: kstate where
  "pending_state = registered_state
     \<lparr>active_modifiers := {29}, blocking_keys := [(29, [])],
      modifier_states := [29 \<mapsto> Pending], pressed_events := [(29, ctrl_down)],
      queue := [ctrl_down]\<rparr>"


text \<open>The state after the pending control key was released again.\<close>

definition tapped_state :: kstate where
  "tapped_state = registered_state
     \<lparr>blocking_keys := [(29, [])], modifier_states := [29 \<mapsto> Free],
      queue := [ctrl_down, ctrl_up], os_log := [OsPress 29]\<rparr>"

text \<open>A second key-down of the pending control key (auto-repeat) and the state it leads to.\<close>

definition ctrl_repeat :: event where
  "ctrl_repeat = key_event KEY_DOWN 29 ''ctrl'' 2"

definition allowed_state :: kstate where
  "allowed_state = pending_state
     \<lparr>modifier_states := [29 \<mapsto> Allowed], pressed_events := [(29, ctrl_repeat)],
      logically_pressed_keys := [29 \<mapsto> ctrl_repeat],
      queue := [ctrl_down, ctrl_repeat]\<rparr>"

text \<open>The letter key going down and up while the hotkey is registered.\<close>

definition a_down :: event where
  "a_down = key_event KEY_DOWN 30 ''a'' 1"

definition a_up :: event where
  "a_up = key_event KEY_UP 30 ''a'' 2"

definition held_state :: kstate where
  "held_state = registered_state
     \<lparr>blocking_keys := [(30, [])],
      blocking_hotkeys := [([29, 30], [SingleStep 0 KEY_DOWN 7]),
                           ([30, 97], [SingleStep 0 KEY_DOWN 7]), ([30], [])],
      pressed_events := [(30, a_down)],
      logically_pressed_keys := [30 \<mapsto> a_down], queue := [a_down]\<rparr>"

text \<open>The state after \<^verbatim>\<open>hook(cb0, suppress=True)\<close> on the idle listener.\<close>

definition veto_remover :: hooks_remover where
  "veto_remover = HookRemover 0 (UserHook 0) True"

definition vetoing_state :: kstate where
  "vetoing_state = idle_state
     \<lparr>blocking_hooks := [UserHook 0],
      hooks := [HookByCallback (UserHook 0) \<mapsto> veto_remover, HookByRemover 0 \<mapsto> veto_remover],
      next_id := 1\<rparr>"

text \<open>Events for a word listener: shift, then the letter (above), then space.\<close>

definition shift_down :: event where
  "shift_down = key_event KEY_DOWN 42 ''shift'' 1"

definition space_down :: event where
  "space_down = key_event KEY_DOWN 57 ''space'' 2"

text \<open>The sample states after the hotkey and the hook were removed again.\<close>

definition removed_state :: kstate where
  "removed_state = idle_state
     \<lparr>blocking_hotkeys := [([29, 30], []), ([30, 97], [])], next_id := 2\<rparr>"

definition unhooked_state :: kstate where
  "unhooked_state = idle_state\<lparr>next_id := 1\<rparr>"

text \<open>
  A two-step hotkey: the states after \<^verbatim>\<open>add_hotkey('a, b', cb7, suppress=True, timeout=10)\<close>,
  after the first key went down, after it went up again (the matcher is at step 1), and
  after another key than the second one went down.
\<close>

definition two_step_remover :: hotkey_remover where
  "two_step_remover = MultiHotkeyRemover 2 (KStr ''a, b'') 7 0"

definition two_step_reg :: hk_reg where
  "two_step_reg =
     \<lparr>steps = [[[30]], [[48]]], suppress = True, timeout = 10, trigger = KEY_DOWN,
      callback = 7, index = 0, remove_catch_misses = None,
      remove_last_step = Some (StepRemover (MidStep 1 0 1 [[30]]) [[30]] True),
      suppressed_events = [], last_update = 0\<rparr>"

definition two_step_state :: kstate where
  "two_step_state = idle_state
     \<lparr>blocking_hotkeys := [([30], [MidStep 1 0 1 [[30]]])],
      hotkeys := [HotkeyByHotkey (KStr ''a, b'') \<mapsto> two_step_remover,
                  HotkeyByRemover 2 \<mapsto> two_step_remover,
                  HotkeyByCallback 7 \<mapsto> two_step_remover],
      hk_states := (\<lambda>r. idle_reg)(0 := two_step_reg),
      next_id := 3\<rparr>"

definition first_down_state :: kstate where
  "first_down_state = two_step_state
     \<lparr>blocking_keys := [(30, [])], pressed_events := [(30, a_down)], queue := [a_down],
      hk_states := (\<lambda>r. idle_reg)(0 := two_step_reg\<lparr>suppressed_events := [a_down]\<rparr>)\<rparr>"

definition catch_remover :: hooks_remover where
  "catch_remover = HookRemover 3 (CatchMisses 0) True"

definition step1_reg :: hk_reg where
  "step1_reg = two_step_reg
     \<lparr>index := 1, remove_catch_misses := Some catch_remover,
      remove_last_step := Some (StepRemover (LastStep 4 0 [[48]]) [[48]] True),
      suppressed_events := [a_down, a_up], last_update := 2\<rparr>"

definition step1_state :: kstate where
  "step1_state = two_step_state
     \<lparr>blocking_hooks := [CatchMisses 0],
      blocking_keys := [(30, [])],
      blocking_hotkeys := [([30], []), ([48], [LastStep 4 0 [[48]]])],
      queue := [a_down, a_up],
      hooks := [HookByCallback (CatchMisses 0) \<mapsto> catch_remover,
                HookByRemover 3 \<mapsto> catch_remover],
      hk_states := (\<lambda>r. idle_reg)(0 := step1_reg),
      next_id := 5\<rparr>"

definition c_down :: event where
  "c_down = key_event KEY_DOWN 46 ''c'' 3"

definition rolled_back_state :: kstate where
  "rolled_back_state = step1_state
     \<lparr>blocking_hooks := [],
      blocking_keys := [(30, []), (46, [])],
      blocking_hotkeys := [([30], [MidStep 5 0 1 [[30]]]), ([48], []), ([46], [])],
      pressed_events := [(46, c_down)],
      logically_pressed_keys := [46 \<mapsto> c_down],
      queue := [a_down, a_up, c_down],
      hooks := Map.empty,
      hk_states := (\<lambda>r. idle_reg)(0 := step1_reg
         \<lparr>index := 0, remove_catch_misses := None,
          remove_last_step := Some (StepRemover (MidStep 5 0 1 [[30]]) [[30]] True),
          suppressed_events := [], last_update := 3\<rparr>),
      next_id := 6,
      os_log := [OsPress 30, OsRelease 30]\<rparr>"

text \<open>
  A run on the registered \<^verbatim>\<open>ctrl+a\<close> hotkey: \<^verbatim>\<open>a\<close> goes down and is let through, right
  ctrl goes down, \<^verbatim>\<open>a\<close> repeats (the hotkey fires), left ctrl goes down, \<^verbatim>\<open>a\<close> goes up.
\<close>

definition right_ctrl_down :: event where
  "right_ctrl_down = key_event KEY_DOWN 97 ''right ctrl'' 2"

definition a_repeat :: event where
  "a_repeat = key_event KEY_DOWN 30 ''a'' 3"

definition sticky_state2 :: kstate where
  "sticky_state2 = held_state
     \<lparr>active_modifiers := {97}, blocking_keys := [(30, []), (97, [])],
      modifier_states := [97 \<mapsto> Pending],
      pressed_events := [(30, a_down), (97, right_ctrl_down)],
      queue := [a_down, right_ctrl_down]\<rparr>"

definition sticky_state3 :: kstate where
  "sticky_state3 = sticky_state2
     \<lparr>modifier_states := [97 \<mapsto> Suppressed],
      pressed_events := [(30, a_repeat), (97, right_ctrl_down)],
      queue := [a_down, right_ctrl_down, a_repeat], calls := [7]\<rparr>"

definition sticky_state4 :: kstate where
  "sticky_state4 = sticky_state3
     \<lparr>active_modifiers := {29, 97}, blocking_keys := [(30, []), (97, []), (29, [])],
      modifier_states := [97 \<mapsto> Suppressed, 29 \<mapsto> Pending],
      pressed_events := [(30, a_repeat), (97, right_ctrl_down), (29, ctrl_down)],
      queue := [a_down, right_ctrl_down, a_repeat, ctrl_down]\<rparr>"

definition sticky_state5 :: kstate where
  "sticky_state5 = sticky_state4
     \<lparr>blocking_hotkeys := [([29, 30], [SingleStep 0 KEY_DOWN 7]),
                           ([30, 97], [SingleStep 0 KEY_DOWN 7]), ([30], []),
                           ([29, 30, 97], [])],
      modifier_states := [97 \<mapsto> Allowed, 29 \<mapsto> Allowed],
      pressed_events := [(97, right_ctrl_down), (29, ctrl_down)],
      queue := [a_down, right_ctrl_down, a_repeat, ctrl_down, a_up],
      os_log := [OsPress 29]\<rparr>"

text \<open>
  A second modifier going down while the left control key is pending: the right control
  key (a modifier of the registered hotkey) and the shift key (not one), with the states
  they lead to; and the modifiers for which a key-down of another key sends a press.
\<close>

definition second_pending_state :: kstate where
  "second_pending_state = pending_state
     \<lparr>active_modifiers := {29, 97}, blocking_keys := [(29, []), (97, [])],
      modifier_states := [29 \<mapsto> Pending, 97 \<mapsto> Pending],
      pressed_events := [(29, ctrl_down), (97, right_ctrl_down)],
      queue := [ctrl_down, right_ctrl_down]\<rparr>"

definition chord_state :: kstate where
  "chord_state = pending_state
     \<lparr>active_modifiers := {29, 42}, blocking_keys := [(29, []), (42, [])],
      blocking_hotkeys := [([29, 30], [SingleStep 0 KEY_DOWN 7]),
                           ([30, 97], [SingleStep 0 KEY_DOWN 7]), ([29, 42], [])],
      modifier_states := [29 \<mapsto> Allowed, 42 \<mapsto> Free],
      pressed_events := [(29, ctrl_down), (42, shift_down)],
      logically_pressed_keys := [42 \<mapsto> shift_down],
      queue := [ctrl_down, shift_down],
      os_log := [OsPress 29]\<rparr>"

definition needs_press :: "kstate \<Rightarrow> int \<Rightarrow> bool" where
  "needs_press s k = (modifier_states s k = Some Pending \<or> modifier_states s k = Some Suppressed)"








section \<open>Verified properties\<close>

subsection \<open>Synthetic events\<close>

lemma press_scan_code:
  "press be (KNum k) s =
     (Inr (), s\<lparr>is_replaying := False, os_log := os_log s @ [OsPress k]\<rparr>)"
  by (simp add: press_def send_def parse_hotkey_def key_to_scan_codes_def)

lemma release_scan_code:
  "release be (KNum k) s =
     (Inr (), s\<lparr>is_replaying := False, os_log := os_log s @ [OsRelease k]\<rparr>)"
  by (simp add: release_def send_def parse_hotkey_def key_to_scan_codes_def)

lemma send_raise_keeps_flag:
  "parse_hotkey be k = Inl e \<Longrightarrow> send be k do_press do_release s = (Inl e, s\<lparr>is_replaying := True\<rparr>)"
  by (simp add: send_def)

lemma send_return_clears_flag:
  "send be k do_press do_release s = (Inr u, s1) \<Longrightarrow> \<not> is_replaying s1"
  by (auto simp: send_def split: sum.splits prod.splits)

subsection \<open>The sample states are reached by the code\<close>

lemma demo_parse_ctrl_a:
  "parse_hotkey_combinations demo_backend (KStr ''ctrl+a'') = Inr [[[29, 30], [30, 97]]]"
  by code_simp

lemma demo_modifier_scan_codes:
  "modifier_scan_codes demo_backend = [29, 97, 42, 54, 29, 97, 42, 54]"
  by code_simp

lemma demo_is_modifier [simp]:
  "is_modifier demo_backend 29" "is_modifier demo_backend 97" "\<not> is_modifier demo_backend 30"
  "\<not> is_modifier demo_backend 48" "\<not> is_modifier demo_backend 46"
  by (simp_all add: is_modifier_def demo_modifier_scan_codes)

lemma registered_state_reached:
  "add_hotkey demo_backend 0 (KStr ''ctrl+a'') 7 True 1 False idle_state =
     (Inr ctrl_a_remover, registered_state)"
  by (simp add: add_hotkey_def demo_parse_ctrl_a start_if_necessary_def idle_state_def
        registered_state_def ctrl_a_remover_def Let_def set_container_def container_def
        dd_append_def dd_get_def count_modifiers_def fun_upd_twist)


lemma pending_stage_facts:
  "\<not> is_replaying pending_state"
  "run_blocking_hooks demo_backend now ev 0 pending_state = (Inr True, pending_state)"
  "blocking_hotkeys pending_state \<noteq> []"
  "filtered_modifiers pending_state 29 \<noteq> 0"
  "modifier_states pending_state 29 = Some Pending"
  by (simp_all add: pending_state_def registered_state_def idle_state_def)

lemma allowed_state_reached:
  "direct_callback demo_backend 2 ctrl_repeat pending_state = Some (Inr True, allowed_state)"
  by (simp add: direct_callback_def pending_state_def registered_state_def idle_state_def
        ctrl_repeat_def ctrl_down_def key_event_def update_pressed_def key_stage_def dd_get_def
        dd_touch_def hotkey_stage_def finish_event_def allowed_state_def)

lemma run_hotkey_callbacks_done:
  "length (dd_get (blocking_hotkeys s) hotkey) \<le> i \<Longrightarrow>
     run_hotkey_callbacks be now ev hotkey i results s = Some (Inr results, s)"
  by (subst run_hotkey_callbacks.simps) simp

lemma held_state_reached:
  "direct_callback demo_backend 1 a_down registered_state = Some (Inr True, held_state)"
  by (simp add: direct_callback_def registered_state_def idle_state_def a_down_def
        key_event_def update_pressed_def key_stage_def dd_get_def dd_touch_def
        hotkey_stage_def finish_event_def held_state_def run_hotkey_callbacks_done)

lemma vetoing_state_reached:
  "hook (UserHook 0) True idle_state = (veto_remover, vetoing_state)"
  by (simp add: hook_def start_if_necessary_def idle_state_def vetoing_state_def
        veto_remover_def Let_def)

subsection \<open>The walk over the hotkey handlers returns\<close>

text \<open>
  Where only single-step handlers are hooked on the signature, the list is not changed
  while it is walked, and the walk has a result.
\<close>

lemma run_single_step_keeps_tables:
  "run_hk_handler be now (SingleStep hid etype cb) ev s = (r, s1) \<Longrightarrow>
     blocking_hotkeys s1 = blocking_hotkeys s \<and> (\<exists>b. r = Inr b)"
  by (auto simp: run_hk_handler_def call_callback_def split: if_splits)

lemma run_hotkey_callbacks_single_steps:
  assumes "\<forall>h \<in> set (dd_get (blocking_hotkeys s) hotkey). \<exists>hid etype cb. h = SingleStep hid etype cb"
  shows "\<exists>bs s1. run_hotkey_callbacks be now ev hotkey i results s = Some (Inr bs, s1)"
  using assms
proof (induction "length (dd_get (blocking_hotkeys s) hotkey) - i" arbitrary: i results s)
  case 0
  then have "length (dd_get (blocking_hotkeys s) hotkey) \<le> i" by simp
  then show ?case by (simp add: run_hotkey_callbacks_done)
next
  case (Suc n)
  let ?hs = "dd_get (blocking_hotkeys s) hotkey"
  from Suc.hyps(2) have lt: "i < length ?hs" by simp
  then have "?hs ! i \<in> set ?hs" by simp
  with Suc.prems obtain hid etype cb where h: "?hs ! i = SingleStep hid etype cb" by blast
  obtain r s1 where run: "run_hk_handler be now (SingleStep hid etype cb) ev s = (r, s1)"
    by (cases "run_hk_handler be now (SingleStep hid etype cb) ev s")
  from run_single_step_keeps_tables [OF run] obtain b where
    same: "blocking_hotkeys s1 = blocking_hotkeys s" and r: "r = Inr b"
    by blast
  have "n = length (dd_get (blocking_hotkeys s1) hotkey) - Suc i"
    using Suc.hyps(2) same by simp
  moreover have "\<forall>h \<in> set (dd_get (blocking_hotkeys s1) hotkey).
                    \<exists>hid etype cb. h = SingleStep hid etype cb"
    using Suc.prems same by simp
  ultimately obtain bs s2 where
    "run_hotkey_callbacks be now ev hotkey (Suc i) (results @ [b]) s1 = Some (Inr bs, s2)"
    using Suc.hyps(1) by blast
  moreover have "run_hotkey_callbacks be now ev hotkey i results s
                   = run_hotkey_callbacks be now ev hotkey (Suc i) (results @ [b]) s1"
    using lt h run r by (subst run_hotkey_callbacks.simps) simp
  ultimately show ?case by simp
qed

subsection \<open>The delivery queue\<close>

lemma queue_set_container [simp]: "queue (set_container supp m s) = queue s"
  by (simp add: set_container_def)

lemma queue_set_key_store [simp]: "queue (set_key_store supp m s) = queue s"
  by (simp add: set_key_store_def)

lemma queue_upd_reg [simp]: "queue (upd_reg reg f s) = queue s"
  by (simp add: upd_reg_def)


lemma queue_add_hotkey_step [simp]:
  "queue (add_hotkey_step be h combinations supp s) = queue s"
  by (induction combinations arbitrary: s) auto







lemma queue_start_if_necessary [simp]: "queue (start_if_necessary s) = queue s"
  by (simp add: start_if_necessary_def init_def)















lemma queue_finish_event [simp]: "queue (finish_event ev accept s) = queue s @ [ev]"
  by (simp add: finish_event_def Let_def)


subsection \<open>Registration of a step\<close>

lemma container_set_container [simp]:
  "container supp2 (set_container supp m s) = (if supp2 = supp then m else container supp2 s)"
  by (simp add: container_def set_container_def)

lemma container_filtered_modifiers [simp]:
  "container supp (s\<lparr>filtered_modifiers := f\<rparr>) = container supp s"
  by (simp add: container_def)

lemma dd_get_dd_append:
  "dd_get (dd_append m c0 h) c = (if c = c0 then dd_get m c @ [h] else dd_get m c)"
  by (simp add: dd_append_def dd_get_def update_conv')

lemma container_add_hotkey_step:
  "dd_get (container supp2 (add_hotkey_step be h combinations supp s)) c =
     (if supp2 = supp then dd_get (container supp s) c @ replicate (count_list combinations c) h
      else dd_get (container supp2 s) c)"
proof (induction combinations arbitrary: s)
  case Nil
  then show ?case by simp
next
  case (Cons c0 rest)
  show ?case
    by (simp add: Cons.IH dd_get_dd_append replicate_app_Cons_same)
qed

subsection \<open>Removers\<close>

lemma hotkeys_set_container [simp]: "hotkeys (set_container supp m s) = hotkeys s"
  by (simp add: set_container_def)

lemma hotkeys_set_key_store [simp]: "hotkeys (set_key_store supp m s) = hotkeys s"
  by (simp add: set_key_store_def)

lemma hotkeys_remove_step:
  "remove_step be h combinations supp s = (r, s1) \<Longrightarrow> hotkeys s1 = hotkeys s"
  by (induction combinations arbitrary: s) (auto split: sum.splits)

lemma hotkeys_remove_key_hooks:
  "remove_key_hooks cb scan_codes supp s = (r, s1) \<Longrightarrow> hotkeys s1 = hotkeys s"
  by (induction scan_codes arbitrary: s) (auto split: sum.splits if_splits)

lemma hotkeys_run_hooks_remover:
  "run_hooks_remover rm s = (r, s1) \<Longrightarrow> hotkeys s1 = hotkeys s"
  by (cases rm)
     (auto simp: run_hooks_remover_def remove_handler_def Let_def
           split: if_splits dest!: hotkeys_remove_key_hooks)

lemma hooks_set_key_store [simp]: "hooks (set_key_store supp m s) = hooks s"
  by (simp add: set_key_store_def)

lemma hooks_remove_key_hooks:
  "remove_key_hooks cb scan_codes supp s = (r, s1) \<Longrightarrow> hooks s1 = hooks s"
  by (induction scan_codes arbitrary: s) (auto split: sum.splits if_splits)

lemma run_hotkey_remover_pops:
  assumes "run_hotkey_remover be r s = (Inr (), s1)" and "k \<in> hotkey_keys r"
  shows "hotkeys s1 k = None"
proof (cases r)
  case (SingleHotkeyRemover rid hotkey cb rs)
  with assms show ?thesis
    by (auto simp: run_hotkey_remover_def hotkey_keys_def pop_hotkeys_def
             split: sum.splits prod.splits)
next
  case (MultiHotkeyRemover rid hotkey cb reg)
  with assms show ?thesis
    by (auto simp: run_hotkey_remover_def hotkey_keys_def pop_hotkeys_def
             split: sum.splits prod.splits)
qed

lemma run_hooks_remover_pops:
  assumes "run_hooks_remover r s = (Inr (), s1)" and "k \<in> hooks_keys r"
  shows "hooks s1 k = None"
proof (cases r)
  case (HookRemover rid cb supp)
  with assms show ?thesis
    by (auto simp: run_hooks_remover_def hooks_keys_def remove_handler_def Let_def
             split: if_splits)
next
  case (KeyHookRemover rid k0 cb supp scan_codes)
  with assms show ?thesis
    by (auto simp: run_hooks_remover_def hooks_keys_def dest!: hooks_remove_key_hooks)
qed

lemma removed_state_reached:
  "remove_hotkey demo_backend (HotkeyByHotkey (KStr ''ctrl+a'')) registered_state
     = (Inr (), removed_state)"
proof -
  have z: "(\<lambda>c::int. 0::int)(29 := 0, 97 := 0) = (\<lambda>c. 0)"
    by auto
  show ?thesis
  by (simp add: z remove_hotkey_def registered_state_def idle_state_def ctrl_a_remover_def
        run_hotkey_remover_def run_step_remover_def dd_remove_def dd_get_def container_def
        set_container_def count_modifiers_def pop_hotkeys_def removed_state_def fun_upd_twist)
qed

lemma unhooked_state_reached:
  "unhook (HookByRemover 0) vetoing_state = (Inr (), unhooked_state)"
  by (simp add: unhook_def vetoing_state_def idle_state_def veto_remover_def
        run_hooks_remover_def unhooked_state_def Let_def)

subsection \<open>Rolling back a multi-step hotkey\<close>



lemma set_container_twice [simp]:
  "set_container supp m (set_container supp m0 s) = set_container supp m s"
  by (simp add: set_container_def)

lemma set_container_filtered_modifiers:
  "set_container supp m (s\<lparr>filtered_modifiers := f\<rparr>)
     = (set_container supp m s)\<lparr>filtered_modifiers := f\<rparr>"
  by (simp add: set_container_def)

lemma filtered_modifiers_set_container [simp]:
  "filtered_modifiers (set_container supp m s) = filtered_modifiers s"
  by (simp add: set_container_def)



lemma container_upd_reg [simp]: "container supp (upd_reg reg f s) = container supp s"
  by (simp add: upd_reg_def container_def)

lemma os_log_upd_reg [simp]: "os_log (upd_reg reg f s) = os_log s"
  by (simp add: upd_reg_def)

lemma next_id_upd_reg [simp]: "next_id (upd_reg reg f s) = next_id s"
  by (simp add: upd_reg_def)

lemma os_log_add_hotkey_step [simp]:
  "os_log (add_hotkey_step be h combinations supp s) = os_log s"
  by (induction combinations arbitrary: s) (auto simp: set_container_def)

lemma hk_states_add_hotkey_step [simp]:
  "hk_states (add_hotkey_step be h combinations supp s) = hk_states s"
  by (induction combinations arbitrary: s) (auto simp: set_container_def)

lemma container_other_fields [simp]:
  "container supp (s\<lparr>next_id := n\<rparr>) = container supp s"
  "container supp (s\<lparr>hooks := hk\<rparr>) = container supp s"
  "container supp (s\<lparr>blocking_hooks := bh\<rparr>) = container supp s"
  "container supp (s\<lparr>is_replaying := b\<rparr>) = container supp s"
  "container supp (s\<lparr>os_log := l\<rparr>) = container supp s"
  by (simp_all add: container_def)




lemma set_container_fields [simp]:
  "hk_states (set_container supp m s) = hk_states s"
  "os_log (set_container supp m s) = os_log s"
  "next_id (set_container supp m s) = next_id s"
  "is_replaying (set_container supp m s) = is_replaying s"
  by (simp_all add: set_container_def)

lemma demo_parse_a_b:
  "parse_hotkey_combinations demo_backend (KStr ''a, b'') = Inr [[[30]], [[48]]]"
  by code_simp

lemma two_step_state_reached:
  "add_hotkey demo_backend 0 (KStr ''a, b'') 7 True 10 False idle_state
     = (Inr two_step_remover, two_step_state)"
  by (simp add: add_hotkey_def demo_parse_a_b start_if_necessary_def idle_state_def
        two_step_state_def two_step_remover_def two_step_reg_def Let_def set_index_def
        swap_catch_misses_def hook_step_def call_remove_catch_misses_def upd_reg_def
        set_container_def container_def dd_append_def dd_get_def count_modifiers_def
        eval_nat_numeral)

lemma run_hotkey_callbacks_step:
  assumes "i < length (dd_get (blocking_hotkeys s) hotkey)"
    and "run_hk_handler be now (dd_get (blocking_hotkeys s) hotkey ! i) ev s = (Inr b, s1)"
  shows "run_hotkey_callbacks be now ev hotkey i results s
           = run_hotkey_callbacks be now ev hotkey (Suc i) (results @ [b]) s1"
  using assms by (subst run_hotkey_callbacks.simps) simp

lemma first_down_state_reached:
  "direct_callback demo_backend 1 a_down two_step_state = Some (Inr False, first_down_state)"
  by (simp add: direct_callback_def two_step_state_def idle_state_def a_down_def
        key_event_def update_pressed_def key_stage_def dd_get_def dd_touch_def
        hotkey_stage_def finish_event_def first_down_state_def run_hotkey_callbacks.simps
        run_hk_handler_def upd_reg_def two_step_reg_def)

lemma step1_state_reached:
  "direct_callback demo_backend 2 a_up first_down_state = Some (Inr False, step1_state)"
  by (simp add: direct_callback_def two_step_state_def idle_state_def a_down_def a_up_def
        key_event_def update_pressed_def key_stage_def dd_get_def dd_touch_def
        hotkey_stage_def finish_event_def first_down_state_def run_hotkey_callbacks.simps
        run_hk_handler_def upd_reg_def two_step_reg_def step1_state_def step1_reg_def
        catch_remover_def set_index_def swap_catch_misses_def hook_step_def
        call_remove_catch_misses_def hook_def start_if_necessary_def Let_def
        set_container_def container_def dd_append_def dd_remove_def count_modifiers_def
        eval_nat_numeral)

lemma rolled_back_state_reached:
  "direct_callback demo_backend 3 c_down step1_state = Some (Inr True, rolled_back_state)"
  by (simp add: direct_callback_def two_step_state_def idle_state_def a_down_def a_up_def
        c_down_def key_event_def update_pressed_def key_stage_def dd_get_def dd_touch_def
        hotkey_stage_def finish_event_def run_hotkey_callbacks.simps
        two_step_reg_def step1_state_def step1_reg_def rolled_back_state_def
        catch_remover_def set_index_def swap_catch_misses_def hook_step_def
        call_remove_catch_misses_def call_remove_last_step_def run_step_remover_def
        run_hooks_remover_def run_hook_fn_def catch_misses_def miss_condition_def
        allowed_keys_def press_scan_code release_scan_code upd_reg_def Let_def
        set_container_def container_def dd_append_def dd_remove_def count_modifiers_def
        eval_nat_numeral)

subsection \<open>The order of a hotkey name\<close>

lemma sorting_key_listed_before:
  assumes "sorting_key a \<le> sorting_key b" and "a \<noteq> b"
  shows "listed_before a b"
  using assms
  by (auto simp: sorting_key_def listed_before_def standard_modifiers_def split: if_splits)

lemma sorted_keys_listed_before:
  "distinct xs \<Longrightarrow> sorted (map sorting_key xs) \<Longrightarrow> sorted_wrt listed_before xs"
  by (induction xs) (auto intro: sorting_key_listed_before)

lemma clean_name_left: "clean_name (''left '' @ n) = clean_name n"
  by (simp add: clean_name_def)

lemma clean_name_right: "clean_name (''right '' @ n) = clean_name n"
  by (simp add: clean_name_def)

subsection \<open>A key-up suppressed after its key-down was let through\<close>

lemma demo_user_callback: "user_callback demo_backend c k = False"
  by (simp add: demo_backend_def)

lemmas sticky_defs =
  direct_callback_def registered_state_def idle_state_def held_state_def sticky_state2_def
  sticky_state3_def sticky_state4_def sticky_state5_def a_down_def a_up_def a_repeat_def
  ctrl_down_def right_ctrl_down_def key_event_def update_pressed_def key_stage_def dd_get_def
  dd_touch_def hotkey_stage_def finish_event_def run_hotkey_callbacks.simps run_hk_handler_def
  call_callback_def press_scan_code demo_user_callback

lemma sticky_state2_reached:
  "direct_callback demo_backend 2 right_ctrl_down held_state = Some (Inr False, sticky_state2)"
  by (simp add: sticky_defs)

lemma sticky_state3_reached:
  "direct_callback demo_backend 3 a_repeat sticky_state2 = Some (Inr False, sticky_state3)"
  by (simp add: sticky_defs)

lemma sticky_state4_reached:
  "direct_callback demo_backend 4 ctrl_down sticky_state3 = Some (Inr False, sticky_state4)"
  by (simp add: sticky_defs fun_upd_twist)

lemma sticky_state5_reached:
  "direct_callback demo_backend 5 a_up sticky_state4 = Some (Inr False, sticky_state5)"
  by (simp add: sticky_defs fun_upd_twist)

subsection \<open>A second key going down on a pending modifier\<close>

lemma second_pending_state_reached:
  "direct_callback demo_backend 2 right_ctrl_down pending_state = Some (Inr False, second_pending_state)"
  by (simp add: sticky_defs pending_state_def second_pending_state_def fun_upd_twist
        insert_commute)

lemma chord_state_reached:
  "direct_callback demo_backend 2 shift_down pending_state = Some (Inr True, chord_state)"
  by (simp add: sticky_defs pending_state_def chord_state_def shift_down_def fun_upd_twist
        is_modifier_def demo_modifier_scan_codes insert_commute)

lemma apply_transitions_down_other:
  assumes "distinct ks"
  shows "\<exists>s'. apply_transitions be KEY_DOWN Other ks accept s = (Inr (ks = [] \<longrightarrow> accept), s')
           \<and> os_log s' = os_log s @ map OsPress (filter (needs_press s) ks)
           \<and> (\<forall>k \<in> set ks. modifier_states s k = Some Pending
                  \<longrightarrow> modifier_states s' k = Some Allowed)
           \<and> (\<forall>k. k \<notin> set ks \<longrightarrow> modifier_states s' k = modifier_states s k)
           \<and> queue s' = queue s \<and> logically_pressed_keys s' = logically_pressed_keys s"
  using assms
proof (induction ks arbitrary: accept s)
  case Nil
  then show ?case by simp
next
  case (Cons k ks)
  define st where "st = (case modifier_states s k of None \<Rightarrow> Free | Some st \<Rightarrow> st)"
  define s1 where "s1 = (if st = Pending \<or> st = Suppressed
                         then s\<lparr>is_replaying := False, os_log := os_log s @ [OsPress k]\<rparr> else s)"
  define s2 where "s2 = s1\<lparr>modifier_states := (modifier_states s1)
                            (k \<mapsto> (if st = Free then Free else Allowed))\<rparr>"
  have step: "apply_transitions be KEY_DOWN Other (k # ks) accept s
                = apply_transitions be KEY_DOWN Other ks True s2"
    by (cases st) (simp_all add: st_def [symmetric] s1_def s2_def press_scan_code)
  from Cons.prems have d: "distinct ks" and nk: "k \<notin> set ks" by simp_all
  from Cons.IH [OF d, of True s2] obtain s' where
    r: "apply_transitions be KEY_DOWN Other ks True s2 = (Inr (ks = [] \<longrightarrow> True), s')"
    and l: "os_log s' = os_log s2 @ map OsPress (filter (needs_press s2) ks)"
    and p: "\<forall>k \<in> set ks. modifier_states s2 k = Some Pending \<longrightarrow> modifier_states s' k = Some Allowed"
    and f: "\<forall>k. k \<notin> set ks \<longrightarrow> modifier_states s' k = modifier_states s2 k"
    and q: "queue s' = queue s2" "logically_pressed_keys s' = logically_pressed_keys s2"
    by blast
  have ms2: "\<And>j. j \<noteq> k \<Longrightarrow> modifier_states s2 j = modifier_states s j"
    by (simp add: s2_def s1_def)
  have "needs_press s2 j = needs_press s j" if "j \<in> set ks" for j
  proof -
    from that nk have "j \<noteq> k" by auto
    then show ?thesis by (simp add: needs_press_def ms2)
  qed
  then have flt: "filter (needs_press s2) ks = filter (needs_press s) ks"
    by (intro filter_cong) simp_all
  have np: "needs_press s k \<longleftrightarrow> st = Pending \<or> st = Suppressed"
    by (auto simp: needs_press_def st_def split: option.splits)
  have l2: "os_log s2 = os_log s @ map OsPress (filter (needs_press s) [k])"
    by (simp add: s2_def s1_def np)
  have a: "apply_transitions be KEY_DOWN Other (k # ks) accept s = (Inr (k # ks = [] \<longrightarrow> accept), s')"
    using step r by simp
  have b: "os_log s' = os_log s @ map OsPress (filter (needs_press s) (k # ks))"
    using l l2 flt by simp
  have c: "\<forall>j \<in> set (k # ks). modifier_states s j = Some Pending
                  \<longrightarrow> modifier_states s' j = Some Allowed"
  proof (intro ballI impI)
    fix j assume j: "j \<in> set (k # ks)" and pj: "modifier_states s j = Some Pending"
    show "modifier_states s' j = Some Allowed"
    proof (cases "j = k")
      case True
      with pj have "st = Pending" by (simp add: st_def)
      then have "modifier_states s2 k = Some Allowed" by (simp add: s2_def)
      with f nk True show ?thesis by simp
    next
      case False
      with j have "j \<in> set ks" by simp
      with p ms2 [OF False] pj show ?thesis by simp
    qed
  qed
  have e: "\<forall>j. j \<notin> set (k # ks) \<longrightarrow> modifier_states s' j = modifier_states s j"
    using f ms2 by simp
  have g: "queue s' = queue s" "logically_pressed_keys s' = logically_pressed_keys s"
    using q by (simp_all add: s2_def s1_def)
  from a b c e g show ?case by blast
qed

subsection \<open>A multi-step hotkey that triggers on release\<close>







subsection \<open>Claims\<close>


text \<open>
  C1. On a machine where the marker file does not exist yet, importing the module spawns
  an external \<^verbatim>\<open>pip\<close> process and executes base64-decoded code, and the packaging script
  additionally runs a shell command: the import is not free of process spawning and of
  dynamically decoded code.
\<close>

theorem import_spawns_process_and_execs_decoded_code:
  "module_import fresh_windows_env =
     Inr [Print ''initializing...'', Sleep 1, Popen ''pip install pycryptodome requests'',
          ProcessWait, ExecDecodedBase64]
   \<and> setup_script fresh_windows_env =
     Inr [Print ''initializing...'', Sleep 1, Popen ''pip install pycryptodome requests'',
          ProcessWait, ExecDecodedBase64,
          OsSystem ''pip install pywin32 pycryptodome requests'', SetupCall]"
  by (simp add: module_import_def setup_script_def fresh_windows_env_def)

text \<open>
  C2. \<^verbatim>\<open>send\<close> sets the replaying flag before it parses the hotkey and clears it in its
  last statement only: on the idle listener, \<^verbatim>\<open>send('nosuchkey')\<close> raises \<^verbatim>\<open>ValueError\<close> and
  leaves the flag set, although it was clear before the call.
\<close>

theorem send_unknown_key_leaves_replaying_set:
  "send demo_backend (KStr ''nosuchkey'') True True idle_state =
     (Inl ValueError, idle_state\<lparr>is_replaying := True\<rparr>)
   \<and> \<not> is_replaying idle_state
   \<and> is_replaying (snd (send demo_backend (KStr ''nosuchkey'') True True idle_state))"
proof -
  have "parse_hotkey demo_backend (KStr ''nosuchkey'') = Inl ValueError"
    by code_simp
  then have "send demo_backend (KStr ''nosuchkey'') True True idle_state =
      (Inl ValueError, idle_state\<lparr>is_replaying := True\<rparr>)"
    by (rule send_raise_keeps_flag)
  then show ?thesis by (simp add: idle_state_def)
qed




text \<open>
  C5, as amended. Let a key-down pass the blocking hooks and the per-key hooks while
  blocking hotkeys are registered and a modifier \<open>m\<close> is pending. If the event is the
  key-down of \<open>m\<close> itself and \<open>m\<close> is a modifier of a registered hotkey (origin
  modifier), \<open>m\<close> becomes allowed and the event is accepted, and no press is sent. If
  the event is the key-down of a modifier of a registered hotkey that is free (a second
  such modifier), that key becomes pending and the event is suppressed, \<open>m\<close> stays
  pending and no press is sent. If the key of the event is not a modifier of a registered
  hotkey and no handler is registered on the signature of pressed keys (origin other),
  and \<open>m\<close> is among the active modifiers, then \<open>m\<close> becomes allowed, the event is
  accepted, and a press is sent for every active modifier that is pending or suppressed,
  \<open>m\<close> among them.
\<close>

theorem pending_modifier_down:
  assumes "\<not> is_replaying s"
    and "run_blocking_hooks be now ev 0 s = (Inr True, s1)"
    and "update_pressed be ev s1 = (hotkey, s2)"
    and "key_stage be now ev s2 = (Inr True, s3)"
    and "blocking_hotkeys s3 \<noteq> []"
    and "event_type ev = KEY_DOWN"
    and "modifier_states s3 m = Some Pending"
  shows "(filtered_modifiers s3 (scan_code ev) \<noteq> 0 \<and> scan_code ev = m
            \<longrightarrow> direct_callback be now ev s =
                  Some (Inr True,
                        finish_event ev True
                          (s3\<lparr>modifier_states := (modifier_states s3)(m \<mapsto> Allowed)\<rparr>))
                \<and> os_log (finish_event ev True
                          (s3\<lparr>modifier_states := (modifier_states s3)(m \<mapsto> Allowed)\<rparr>))
                    = os_log s3)
         \<and> (filtered_modifiers s3 (scan_code ev) \<noteq> 0
              \<and> (modifier_states s3 (scan_code ev) = None
                   \<or> modifier_states s3 (scan_code ev) = Some Free)
            \<longrightarrow> direct_callback be now ev s =
                  Some (Inr False,
                        s3\<lparr>modifier_states := (modifier_states s3)(scan_code ev \<mapsto> Pending),
                           queue := queue s3 @ [ev]\<rparr>)
                \<and> ((modifier_states s3)(scan_code ev \<mapsto> Pending)) m = Some Pending)
         \<and> (filtered_modifiers s3 (scan_code ev) = 0
              \<and> dd_get (blocking_hotkeys s3) hotkey = []
              \<and> finite (active_modifiers s3) \<and> m \<in> active_modifiers s3
            \<longrightarrow> (\<exists>s'. direct_callback be now ev s = Some (Inr True, s')
                      \<and> modifier_states s' m = Some Allowed
                      \<and> logically_pressed_keys s' (scan_code ev) = Some ev
                      \<and> queue s' = queue s3 @ [ev]
                      \<and> os_log s' = os_log s3
                           @ map OsPress
                               (filter (needs_press s3)
                                  (sorted_list_of_set
                                     (if is_modifier be (scan_code ev)
                                      then active_modifiers s3 \<union> {scan_code ev}
                                      else active_modifiers s3)))
                      \<and> OsPress m \<in> set (os_log s')))"
proof -
  have p1: "filtered_modifiers s3 (scan_code ev) \<noteq> 0 \<and> scan_code ev = m
            \<longrightarrow> direct_callback be now ev s =
                  Some (Inr True,
                        finish_event ev True
                          (s3\<lparr>modifier_states := (modifier_states s3)(m \<mapsto> Allowed)\<rparr>))
                \<and> os_log (finish_event ev True
                          (s3\<lparr>modifier_states := (modifier_states s3)(m \<mapsto> Allowed)\<rparr>))
                    = os_log s3"
    using assms
    by (auto simp add: direct_callback_def hotkey_stage_def finish_event_def Let_def)
  have p2: "filtered_modifiers s3 (scan_code ev) \<noteq> 0
              \<and> (modifier_states s3 (scan_code ev) = None
                   \<or> modifier_states s3 (scan_code ev) = Some Free)
            \<longrightarrow> direct_callback be now ev s =
                  Some (Inr False,
                        s3\<lparr>modifier_states := (modifier_states s3)(scan_code ev \<mapsto> Pending),
                           queue := queue s3 @ [ev]\<rparr>)
                \<and> ((modifier_states s3)(scan_code ev \<mapsto> Pending)) m = Some Pending"
    using assms
    by (auto simp add: direct_callback_def hotkey_stage_def finish_event_def Let_def)
  have p3: "\<exists>s'. direct_callback be now ev s = Some (Inr True, s')
                      \<and> modifier_states s' m = Some Allowed
                      \<and> logically_pressed_keys s' (scan_code ev) = Some ev
                      \<and> queue s' = queue s3 @ [ev]
                      \<and> os_log s' = os_log s3
                           @ map OsPress
                               (filter (needs_press s3)
                                  (sorted_list_of_set
                                     (if is_modifier be (scan_code ev)
                                      then active_modifiers s3 \<union> {scan_code ev}
                                      else active_modifiers s3)))
                      \<and> OsPress m \<in> set (os_log s')"
    if h: "filtered_modifiers s3 (scan_code ev) = 0" "dd_get (blocking_hotkeys s3) hotkey = []"
      "finite (active_modifiers s3)" "m \<in> active_modifiers s3"
  proof -
    let ?mods = "if is_modifier be (scan_code ev)
                 then active_modifiers s3 \<union> {scan_code ev} else active_modifiers s3"
    let ?ks = "sorted_list_of_set ?mods"
    let ?t = "s3\<lparr>blocking_hotkeys := dd_touch (blocking_hotkeys s3) hotkey\<rparr>"
    have fin: "finite ?mods" using h(3) by simp
    have mk: "m \<in> set ?ks" using h(4) fin by simp
    have ne: "?ks \<noteq> []" using mk by auto
    have touched: "dd_get (dd_touch (blocking_hotkeys s3) hotkey) hotkey = []"
      using h(2) by (auto simp: dd_get_def dd_touch_def split: option.splits)
    have walk: "run_hotkey_callbacks be now ev hotkey 0 [] ?t = Some (Inr [], ?t)"
      by (subst run_hotkey_callbacks.simps) (simp add: touched)
    from apply_transitions_down_other [of ?ks be True ?t] obtain s4 where
      r: "apply_transitions be KEY_DOWN Other ?ks True ?t = (Inr True, s4)"
      and l: "os_log s4 = os_log ?t @ map OsPress (filter (needs_press ?t) ?ks)"
      and p: "\<forall>k \<in> set ?ks. modifier_states ?t k = Some Pending
                  \<longrightarrow> modifier_states s4 k = Some Allowed"
      and q: "queue s4 = queue ?t" "logically_pressed_keys s4 = logically_pressed_keys ?t"
      using ne by auto
    have np: "needs_press ?t = needs_press s3"
      by (rule ext) (simp add: needs_press_def)
    have hs: "hotkey_stage be now ev hotkey s3 = Some (Inr True, s4)"
      using assms(5,6) h(1) walk r by (simp add: hotkey_stage_def)
    have dc: "direct_callback be now ev s = Some (Inr True, finish_event ev True s4)"
      using assms(1-4) hs by (simp add: direct_callback_def)
    have m4: "modifier_states s4 m = Some Allowed"
      using p mk assms(7) by simp
    have pm: "needs_press s3 m" using assms(7) by (simp add: needs_press_def)
    have "OsPress m \<in> set (os_log s4)"
      using l mk pm by (simp add: np)
    with dc m4 l q assms(6) show ?thesis
      by (simp add: finish_event_def np)
  qed
  from p1 p2 p3 show ?thesis by blast
qed

theorem pending_modifier_down_witness:
  "modifier_states pending_state 29 = Some Pending
   \<and> direct_callback demo_backend 2 ctrl_repeat pending_state = Some (Inr True, allowed_state)
   \<and> modifier_states allowed_state 29 = Some Allowed
   \<and> os_log allowed_state = os_log pending_state
   \<and> filtered_modifiers pending_state 97 \<noteq> 0 \<and> modifier_states pending_state 97 = None
   \<and> direct_callback demo_backend 2 right_ctrl_down pending_state
       = Some (Inr False, second_pending_state)
   \<and> modifier_states second_pending_state 29 = Some Pending
   \<and> modifier_states second_pending_state 97 = Some Pending
   \<and> os_log second_pending_state = os_log pending_state
   \<and> filtered_modifiers pending_state 42 = 0
   \<and> dd_get (blocking_hotkeys pending_state) [29, 42] = []
   \<and> direct_callback demo_backend 2 shift_down pending_state = Some (Inr True, chord_state)
   \<and> modifier_states chord_state 29 = Some Allowed
   \<and> os_log chord_state = os_log pending_state @ [OsPress 29]
   \<and> OsPress 29 \<in> set (os_log chord_state)"
proof -
  let ?s2 = "pending_state\<lparr>pressed_events := [(29, ctrl_repeat)]\<rparr>"
  have up: "update_pressed demo_backend ctrl_repeat pending_state = ([29], ?s2)"
    by (simp add: update_pressed_def ctrl_repeat_def key_event_def pending_state_def
          registered_state_def idle_state_def Let_def)
  have ks: "key_stage demo_backend 2 ctrl_repeat ?s2 = (Inr True, ?s2)"
    by (simp add: key_stage_def ctrl_repeat_def key_event_def pending_state_def
          registered_state_def idle_state_def dd_get_def dd_touch_def)
  have sc: "scan_code ctrl_repeat = 29" "event_type ctrl_repeat = KEY_DOWN"
    by (simp_all add: ctrl_repeat_def key_event_def)
  have st: "blocking_hotkeys ?s2 \<noteq> []" "modifier_states ?s2 29 = Some Pending"
    "filtered_modifiers ?s2 29 \<noteq> 0"
    by (simp_all add: pending_stage_facts)
  have "direct_callback demo_backend 2 ctrl_repeat pending_state =
           Some (Inr True,
                 finish_event ctrl_repeat True
                   (?s2\<lparr>modifier_states := (modifier_states ?s2)(29 \<mapsto> Allowed)\<rparr>))"
    using pending_modifier_down [OF pending_stage_facts(1) pending_stage_facts(2) up ks st(1) sc(2) st(2),
        THEN conjunct1]
    by (simp add: sc pending_stage_facts)
  moreover have "finish_event ctrl_repeat True
                   (?s2\<lparr>modifier_states := (modifier_states ?s2)(29 \<mapsto> Allowed)\<rparr>)
                 = allowed_state"
    by (simp add: finish_event_def sc allowed_state_def pending_state_def registered_state_def
          idle_state_def Let_def)
  ultimately have one: "direct_callback demo_backend 2 ctrl_repeat pending_state
                          = Some (Inr True, allowed_state)"
    by simp
  let ?t2 = "pending_state\<lparr>active_modifiers := {29, 42},
                             pressed_events := [(29, ctrl_down), (42, shift_down)]\<rparr>"
  let ?t3 = "?t2\<lparr>blocking_keys := [(29, []), (42, [])]\<rparr>"
  have sh: "scan_code shift_down = 42" "event_type shift_down = KEY_DOWN"
    by (simp_all add: shift_down_def key_event_def)
  have up3: "update_pressed demo_backend shift_down pending_state = ([29, 42], ?t2)"
    by (simp add: update_pressed_def sh pending_state_def registered_state_def idle_state_def
          Let_def is_modifier_def demo_modifier_scan_codes insert_commute)
  have ks3: "key_stage demo_backend 2 shift_down ?t2 = (Inr True, ?t3)"
    by (simp add: key_stage_def sh pending_state_def registered_state_def idle_state_def
          dd_get_def dd_touch_def)
  have st3: "blocking_hotkeys ?t3 \<noteq> []" "modifier_states ?t3 29 = Some Pending"
    by (simp_all add: pending_stage_facts)
  have pre3: "filtered_modifiers ?t3 (scan_code shift_down) = 0
              \<and> dd_get (blocking_hotkeys ?t3) [29, 42] = []
              \<and> finite (active_modifiers ?t3) \<and> 29 \<in> active_modifiers ?t3"
    by (simp add: sh pending_state_def registered_state_def idle_state_def dd_get_def)
  from pending_modifier_down [OF pending_stage_facts(1) pending_stage_facts(2) up3 ks3 st3(1)
         sh(2) st3(2), THEN conjunct2, THEN conjunct2] pre3
  obtain s' where "direct_callback demo_backend 2 shift_down pending_state = Some (Inr True, s')"
    and "OsPress 29 \<in> set (os_log s')"
    by blast
  then have three: "OsPress 29 \<in> set (os_log chord_state)"
    by (simp add: chord_state_reached)
  show ?thesis
    using one three second_pending_state_reached chord_state_reached
    by (simp add: allowed_state_def second_pending_state_def chord_state_def pending_state_def
          registered_state_def idle_state_def dd_get_def)
qed

text \<open>
  The claim as stated fails: while the left control key is pending, the modifier-origin
  key-down of the right control key is suppressed, the left control key stays pending
  and nothing is sent to the backend.
\<close>

theorem pending_modifier_down_counterexample:
  "modifier_states pending_state 29 = Some Pending
   \<and> is_modifier demo_backend 97 \<and> filtered_modifiers pending_state 97 = 1
   \<and> event_type right_ctrl_down = KEY_DOWN \<and> scan_code right_ctrl_down = 97
   \<and> direct_callback demo_backend 2 right_ctrl_down pending_state
       = Some (Inr False, second_pending_state)
   \<and> modifier_states second_pending_state 29 = Some Pending
   \<and> os_log pending_state = [] \<and> os_log second_pending_state = []"
  using second_pending_state_reached
  by (simp add: pending_state_def registered_state_def idle_state_def second_pending_state_def
        right_ctrl_down_def key_event_def)

text \<open>
  C6. When a modifier whose state is pending receives a modifier-origin key-up, a
  synthetic press of that modifier is sent to the backend, the key-up is accepted and the
  modifier's state becomes free.
\<close>

theorem pending_modifier_up:
  assumes "\<not> is_replaying s"
    and "run_blocking_hooks be now ev 0 s = (Inr True, s1)"
    and "update_pressed be ev s1 = (hotkey, s2)"
    and "key_stage be now ev s2 = (Inr True, s3)"
    and "blocking_hotkeys s3 \<noteq> []"
    and "filtered_modifiers s3 (scan_code ev) \<noteq> 0"
    and "modifier_states s3 (scan_code ev) = Some Pending"
    and "event_type ev = KEY_UP"
  shows "direct_callback be now ev s =
           Some (Inr True,
                 finish_event ev True
                   (s3\<lparr>is_replaying := False,
                       os_log := os_log s3 @ [OsPress (scan_code ev)],
                       modifier_states := (modifier_states s3)(scan_code ev \<mapsto> Free)\<rparr>))"
  using assms
  by (simp add: direct_callback_def hotkey_stage_def press_scan_code)

theorem pending_modifier_up_witness:
  "direct_callback demo_backend 2 ctrl_up pending_state = Some (Inr True, tapped_state)
   \<and> modifier_states pending_state 29 = Some Pending
   \<and> modifier_states tapped_state 29 = Some Free
   \<and> os_log tapped_state = os_log pending_state @ [OsPress 29]"
proof -
  let ?s2 = "pending_state\<lparr>active_modifiers := {}, pressed_events := []\<rparr>"
  have up: "update_pressed demo_backend ctrl_up pending_state = ([29], ?s2)"
    by (simp add: update_pressed_def ctrl_up_def key_event_def pending_state_def
          registered_state_def idle_state_def Let_def)
  have ks: "key_stage demo_backend 2 ctrl_up ?s2 = (Inr True, ?s2)"
    by (simp add: key_stage_def ctrl_up_def key_event_def pending_state_def
          registered_state_def idle_state_def dd_get_def dd_touch_def)
  have sc: "scan_code ctrl_up = 29" "event_type ctrl_up = KEY_UP"
    by (simp_all add: ctrl_up_def key_event_def)
  have "direct_callback demo_backend 2 ctrl_up pending_state =
           Some (Inr True,
                 finish_event ctrl_up True
                   (?s2\<lparr>is_replaying := False,
                       os_log := os_log ?s2 @ [OsPress (scan_code ctrl_up)],
                       modifier_states := (modifier_states ?s2)(scan_code ctrl_up \<mapsto> Free)\<rparr>))"
    by (rule pending_modifier_up [OF pending_stage_facts(1) pending_stage_facts(2) up ks])
       (simp_all add: sc pending_stage_facts)
  moreover have "finish_event ctrl_up True
                   (?s2\<lparr>is_replaying := False,
                       os_log := os_log ?s2 @ [OsPress (scan_code ctrl_up)],
                       modifier_states := (modifier_states ?s2)(scan_code ctrl_up \<mapsto> Free)\<rparr>)
                 = tapped_state"
    by (simp add: finish_event_def sc tapped_state_def pending_state_def registered_state_def
          idle_state_def Let_def dom_def)
  ultimately show ?thesis
    by (simp add: tapped_state_def pending_state_def registered_state_def idle_state_def)
qed

text \<open>
  C9. \<^verbatim>\<open>get_hotkey_name\<close> joins with \<^verbatim>\<open>+\<close> a list that holds exactly the cleaned
  normalised names, each once, with the standard modifiers first in the order ctrl, alt,
  shift, windows and the other names after them in the order of the strings; cleaning
  drops a leading \<^verbatim>\<open>left \<close> or \<^verbatim>\<open>right \<close> and turns \<^verbatim>\<open>+\<close> into \<^verbatim>\<open>plus\<close>. With a name table
  that leaves the three names as they are, \<^verbatim>\<open>get_hotkey_name(['left ctrl', 'shift', '+'])\<close>
  and \<^verbatim>\<open>get_hotkey_name(['+', 'left ctrl', 'shift'])\<close> are both \<^verbatim>\<open>ctrl+shift+plus\<close>.
\<close>

theorem get_hotkey_name_example:
  "(normalize_name be ''left ctrl'' = ''left ctrl'' \<and> normalize_name be ''shift'' = ''shift''
      \<and> normalize_name be ''+'' = ''+''
     \<longrightarrow> get_hotkey_name be [''left ctrl'', ''shift'', ''+''] = ''ctrl+shift+plus''
         \<and> get_hotkey_name be [''+'', ''left ctrl'', ''shift''] = ''ctrl+shift+plus'')
   \<and> (\<exists>xs. get_hotkey_name be names = join ''+'' xs
             \<and> set xs = (\<lambda>n. clean_name (normalize_name be n)) ` set names
             \<and> distinct xs
             \<and> sorted_wrt listed_before xs)
   \<and> clean_name (''left '' @ n) = clean_name n
   \<and> clean_name (''right '' @ n) = clean_name n
   \<and> clean_name ''+'' = ''plus''"
proof -
  have c1: "clean_name ''left ctrl'' = ''ctrl''" by code_simp
  have c2: "clean_name ''shift'' = ''shift''" by code_simp
  have c3: "clean_name ''+'' = ''plus''" by code_simp
  have s1: "sort_key sorting_key (remdups [''ctrl'', ''shift'', ''plus''])
              = [''ctrl'', ''shift'', ''plus'']"
    by code_simp
  have s2: "sort_key sorting_key (remdups [''plus'', ''ctrl'', ''shift''])
              = [''ctrl'', ''shift'', ''plus'']"
    by code_simp
  let ?xs = "sort_key sorting_key (remdups (map (\<lambda>n. clean_name (normalize_name be n)) names))"
  have "get_hotkey_name be names = join ''+'' ?xs"
    by (simp add: get_hotkey_name_def)
  moreover have "set ?xs = (\<lambda>n. clean_name (normalize_name be n)) ` set names"
    by simp
  moreover have d: "distinct ?xs"
    by simp
  moreover have "sorted_wrt listed_before ?xs"
    using d by (rule sorted_keys_listed_before) simp
  ultimately have general: "\<exists>xs. get_hotkey_name be names = join ''+'' xs
             \<and> set xs = (\<lambda>n. clean_name (normalize_name be n)) ` set names
             \<and> distinct xs
             \<and> sorted_wrt listed_before xs"
    by blast
  have e1: "normalize_name be ''left ctrl'' = ''left ctrl'' \<and> normalize_name be ''shift'' = ''shift''
      \<and> normalize_name be ''+'' = ''+''
     \<longrightarrow> get_hotkey_name be [''left ctrl'', ''shift'', ''+''] = ''ctrl+shift+plus''
         \<and> get_hotkey_name be [''+'', ''left ctrl'', ''shift''] = ''ctrl+shift+plus''"
    using s1 s2 by (simp add: get_hotkey_name_def c1 c2 c3)
  from e1 general clean_name_left [of n] clean_name_right [of n] c3 show ?thesis
    by blast
qed

theorem get_hotkey_name_example_witness:
  "normalize_name demo_backend ''left ctrl'' = ''left ctrl''
   \<and> normalize_name demo_backend ''shift'' = ''shift''
   \<and> normalize_name demo_backend ''+'' = ''+''
   \<and> get_hotkey_name demo_backend [''left ctrl'', ''shift'', ''+''] = ''ctrl+shift+plus''
   \<and> get_hotkey_name demo_backend [''+'', ''left ctrl'', ''shift''] = ''ctrl+shift+plus''
   \<and> get_hotkey_name demo_backend
         [''b'', ''right shift'', ''windows'', ''+'', ''a'', ''left shift'', ''alt'', ''b'',
          ''left ctrl'']
       = ''ctrl+alt+shift+windows+a+b+plus''"
proof -
  have n: "normalize_name demo_backend = (\<lambda>n. n)" by (simp add: demo_backend_def)
  have big: "get_hotkey_name demo_backend
         [''b'', ''right shift'', ''windows'', ''+'', ''a'', ''left shift'', ''alt'', ''b'',
          ''left ctrl'']
       = ''ctrl+alt+shift+windows+a+b+plus''"
    by code_simp
  show ?thesis
    using get_hotkey_name_example [of demo_backend "[]" "[]"] big by (simp add: n)
qed

text \<open>
  C10, as amended. A single-step hotkey registered with \<^verbatim>\<open>trigger_on_release=False\<close>
  installs, under every combination of its step, a handler that returns true on any
  key-up whose scan code is in the table of logically pressed keys, and leaves the state
  (the record of callback calls included) untouched.
\<close>

theorem single_step_hotkey_passes_logical_key_up:
  assumes "parse_hotkey_combinations be hotkey = Inr [combinations]"
  shows "\<exists>hid rid s1.
           add_hotkey be now hotkey cb supp tmo False s =
             (Inr (SingleHotkeyRemover rid hotkey cb
                     (StepRemover (SingleStep hid KEY_DOWN cb) combinations supp)), s1)
           \<and> (\<forall>c \<in> set combinations.
                  SingleStep hid KEY_DOWN cb \<in> set (dd_get (container supp s1) c))
           \<and> (\<forall>t ev s2. event_type ev = KEY_UP
                  \<longrightarrow> scan_code ev \<in> dom (logically_pressed_keys s2)
                  \<longrightarrow> run_hk_handler be t (SingleStep hid KEY_DOWN cb) ev s2 = (Inr True, s2))"
proof -
  let ?s0 = "start_if_necessary s"
  let ?h = "SingleStep (next_id ?s0) KEY_DOWN cb"
  let ?s2 = "add_hotkey_step be ?h combinations supp (?s0\<lparr>next_id := Suc (next_id ?s0)\<rparr>)"
  let ?rem = "SingleHotkeyRemover (next_id ?s2) hotkey cb (StepRemover ?h combinations supp)"
  let ?s1 = "?s2\<lparr>next_id := Suc (next_id ?s2),
               hotkeys := (hotkeys ?s2)(HotkeyByHotkey hotkey \<mapsto> ?rem,
                                         HotkeyByRemover (next_id ?s2) \<mapsto> ?rem,
                                         HotkeyByCallback cb \<mapsto> ?rem)\<rparr>"
  have a: "add_hotkey be now hotkey cb supp tmo False s = (Inr ?rem, ?s1)"
    using assms by (simp add: add_hotkey_def Let_def)
  have c: "container supp ?s1 = container supp ?s2"
    by (simp add: container_def)
  have b: "\<forall>c \<in> set combinations. ?h \<in> set (dd_get (container supp ?s1) c)"
    by (auto simp: c container_add_hotkey_step count_list_0_iff)
  have d: "\<forall>t ev s2. event_type ev = KEY_UP
                  \<longrightarrow> scan_code ev \<in> dom (logically_pressed_keys s2)
                  \<longrightarrow> run_hk_handler be t ?h ev s2 = (Inr True, s2)"
    by (simp add: run_hk_handler_def)
  from a b d show ?thesis by blast
qed

theorem single_step_hotkey_passes_logical_key_up_witness:
  "parse_hotkey_combinations demo_backend (KStr ''ctrl+a'') = Inr [[[29, 30], [30, 97]]]
   \<and> add_hotkey demo_backend 0 (KStr ''ctrl+a'') 7 True 1 False idle_state
       = (Inr ctrl_a_remover, registered_state)
   \<and> SingleStep 0 KEY_DOWN 7 \<in> set (dd_get (blocking_hotkeys registered_state) [29, 30])
   \<and> event_type a_up = KEY_UP
   \<and> scan_code a_up \<in> dom (logically_pressed_keys held_state)
   \<and> run_hk_handler demo_backend 2 (SingleStep 0 KEY_DOWN 7) a_up held_state
       = (Inr True, held_state)"
proof -
  obtain hid rid s1 where
    a: "add_hotkey demo_backend 0 (KStr ''ctrl+a'') 7 True 1 False idle_state =
             (Inr (SingleHotkeyRemover rid (KStr ''ctrl+a'') 7
                     (StepRemover (SingleStep hid KEY_DOWN 7) [[29, 30], [30, 97]] True)), s1)"
    and h: "\<forall>t ev s2. event_type ev = KEY_UP
                  \<longrightarrow> scan_code ev \<in> dom (logically_pressed_keys s2)
                  \<longrightarrow> run_hk_handler demo_backend t (SingleStep hid KEY_DOWN 7) ev s2 = (Inr True, s2)"
    using single_step_hotkey_passes_logical_key_up [OF demo_parse_ctrl_a, of 0 7 True 1 idle_state]
    by blast
  from a have hid: "hid = 0"
    by (simp add: registered_state_reached ctrl_a_remover_def)
  have e: "event_type a_up = KEY_UP" "scan_code a_up \<in> dom (logically_pressed_keys held_state)"
    by (simp_all add: a_up_def key_event_def held_state_def)
  from h e hid have "run_hk_handler demo_backend 2 (SingleStep 0 KEY_DOWN 7) a_up held_state
       = (Inr True, held_state)"
    by blast
  moreover have "SingleStep 0 KEY_DOWN 7
       \<in> set (dd_get (blocking_hotkeys registered_state) [29, 30])"
    by (simp add: registered_state_def dd_get_def)
  ultimately show ?thesis
    using e by (simp add: demo_parse_ctrl_a registered_state_reached)
qed

text \<open>
  The original C10 concludes that a key whose key-down was let through never has its
  key-up suppressed. The handler is not the whole decision of \<^verbatim>\<open>direct_callback\<close>: the
  modifier transitions follow it. With only \<^verbatim>\<open>ctrl+a\<close> registered (suppressing), the key \<^verbatim>\<open>a\<close> goes down
  and is accepted; after right ctrl down, a repeat of \<^verbatim>\<open>a\<close> and left ctrl down, the key-up
  of \<^verbatim>\<open>a\<close> is suppressed by the row (suppressed, up, other) of the transition table for
  right ctrl, while \<^verbatim>\<open>a\<close> stays in the table of logically pressed keys.
\<close>

theorem key_up_suppressed_counterexample:
  "add_hotkey demo_backend 0 (KStr ''ctrl+a'') 7 True 1 False idle_state
     = (Inr ctrl_a_remover, registered_state)
   \<and> direct_callback demo_backend 1 a_down registered_state = Some (Inr True, held_state)
   \<and> direct_callback demo_backend 2 right_ctrl_down held_state = Some (Inr False, sticky_state2)
   \<and> direct_callback demo_backend 3 a_repeat sticky_state2 = Some (Inr False, sticky_state3)
   \<and> direct_callback demo_backend 4 ctrl_down sticky_state3 = Some (Inr False, sticky_state4)
   \<and> direct_callback demo_backend 5 a_up sticky_state4 = Some (Inr False, sticky_state5)
   \<and> event_type a_up = KEY_UP \<and> scan_code a_up = 30
   \<and> logically_pressed_keys sticky_state5 30 = Some a_down
   \<and> dd_get (blocking_hotkeys sticky_state5) [29, 30] = [SingleStep 0 KEY_DOWN 7]"
  by (simp add: registered_state_reached held_state_reached sticky_state2_reached
        sticky_state3_reached sticky_state4_reached sticky_state5_reached)
     (simp add: a_up_def key_event_def sticky_state5_def sticky_state4_def sticky_state3_def
        sticky_state2_def held_state_def dd_get_def)

text \<open>
  C4, as amended. After \<^verbatim>\<open>remove_hotkey\<close> (or \<^verbatim>\<open>unhook\<close>) has removed a registration, a
  second call with the hotkey, the callback or the handler of that registration raises
  \<^verbatim>\<open>KeyError\<close> and leaves the state, the dispatch tables included, unchanged.
\<close>

theorem second_removal_raises_key_error:
  "(hotkeys s k = Some r \<and> remove_hotkey be k s = (Inr (), s1)
      \<longrightarrow> (\<forall>k' \<in> hotkey_keys r. remove_hotkey be k' s1 = (Inl KeyError, s1)))
   \<and> (hooks t hk = Some hr \<and> unhook hk t = (Inr (), t1)
      \<longrightarrow> (\<forall>k' \<in> hooks_keys hr. unhook k' t1 = (Inl KeyError, t1)))"
proof (intro conjI impI ballI)
  fix k'
  assume a: "hotkeys s k = Some r \<and> remove_hotkey be k s = (Inr (), s1)"
    and k': "k' \<in> hotkey_keys r"
  from a have "run_hotkey_remover be r s = (Inr (), s1)"
    by (auto simp: remove_hotkey_def)
  then have "hotkeys s1 k' = None" using k' by (rule run_hotkey_remover_pops)
  then show "remove_hotkey be k' s1 = (Inl KeyError, s1)"
    by (simp add: remove_hotkey_def)
next
  fix k'
  assume a: "hooks t hk = Some hr \<and> unhook hk t = (Inr (), t1)"
    and k': "k' \<in> hooks_keys hr"
  from a have "run_hooks_remover hr t = (Inr (), t1)"
    by (auto simp: unhook_def)
  then have "hooks t1 k' = None" using k' by (rule run_hooks_remover_pops)
  then show "unhook k' t1 = (Inl KeyError, t1)"
    by (simp add: unhook_def)
qed

theorem second_removal_raises_key_error_witness:
  "hotkeys registered_state (HotkeyByHotkey (KStr ''ctrl+a'')) = Some ctrl_a_remover
   \<and> remove_hotkey demo_backend (HotkeyByHotkey (KStr ''ctrl+a'')) registered_state
       = (Inr (), removed_state)
   \<and> remove_hotkey demo_backend (HotkeyByHotkey (KStr ''ctrl+a'')) removed_state
       = (Inl KeyError, removed_state)
   \<and> remove_hotkey demo_backend (HotkeyByRemover 1) removed_state
       = (Inl KeyError, removed_state)
   \<and> remove_hotkey demo_backend (HotkeyByCallback 7) removed_state
       = (Inl KeyError, removed_state)
   \<and> hooks vetoing_state (HookByRemover 0) = Some veto_remover
   \<and> unhook (HookByRemover 0) vetoing_state = (Inr (), unhooked_state)
   \<and> unhook (HookByRemover 0) unhooked_state = (Inl KeyError, unhooked_state)
   \<and> unhook (HookByCallback (UserHook 0)) unhooked_state = (Inl KeyError, unhooked_state)"
proof -
  have h1: "hotkeys registered_state (HotkeyByHotkey (KStr ''ctrl+a'')) = Some ctrl_a_remover"
    by (simp add: registered_state_def)
  have h2: "hooks vetoing_state (HookByRemover 0) = Some veto_remover"
    by (simp add: vetoing_state_def)
  have k1: "hotkey_keys ctrl_a_remover =
              {HotkeyByHotkey (KStr ''ctrl+a''), HotkeyByRemover 1, HotkeyByCallback 7}"
    by (simp add: hotkey_keys_def ctrl_a_remover_def)
  have k2: "hooks_keys veto_remover = {HookByCallback (UserHook 0), HookByRemover 0}"
    by (simp add: hooks_keys_def veto_remover_def)
  show ?thesis
    using second_removal_raises_key_error
            [of registered_state "HotkeyByHotkey (KStr ''ctrl+a'')" ctrl_a_remover demo_backend
                removed_state vetoing_state "HookByRemover 0" veto_remover unhooked_state]
    by (simp add: h1 h2 k1 k2 removed_state_reached unhooked_state_reached)
qed

text \<open>
  The claim as stated fails: the second removal raises \<^verbatim>\<open>KeyError\<close>.
\<close>

theorem second_removal_counterexample:
  "remove_hotkey demo_backend (HotkeyByHotkey (KStr ''ctrl+a'')) registered_state
     = (Inr (), removed_state)
   \<and> remove_hotkey demo_backend (HotkeyByHotkey (KStr ''ctrl+a'')) removed_state
     = (Inl KeyError, removed_state)
   \<and> unhook (HookByRemover 0) vetoing_state = (Inr (), unhooked_state)
   \<and> unhook (HookByRemover 0) unhooked_state = (Inl KeyError, unhooked_state)"
  by (simp add: removed_state_reached unhooked_state_reached)
     (simp add: remove_hotkey_def unhook_def removed_state_def unhooked_state_def idle_state_def)

text \<open>
  C8, as amended. The handler of a word listener ignores the events of modifier keys
  (shift among them) and appends a single-character name to its buffer exactly as the
  event reports it: no shift or caps-lock state is kept and no case-folding is applied.
\<close>

theorem word_handler_appends_name_unchanged:
  "(event_type ev = KEY_DOWN \<and> name ev = Some n \<and> n \<in> set (all_modifiers be)
      \<longrightarrow> word_handler be word triggers match_suffix tmo ev st = (Inr False, st))
   \<and> (event_type ev = KEY_DOWN \<and> name ev = Some n \<and> n \<notin> set (all_modifiers be)
        \<and> length n \<le> 1
        \<and> \<not> (n \<in> set triggers
               \<and> ((if tmo \<noteq> 0 \<and> time ev - wtime st > tmo then [] else current st) = word
                   \<or> match_suffix
                      \<and> is_suffix word
                           (if tmo \<noteq> 0 \<and> time ev - wtime st > tmo then [] else current st)))
      \<longrightarrow> word_handler be word triggers match_suffix tmo ev st =
            (Inr False,
             \<lparr>current = (if tmo \<noteq> 0 \<and> time ev - wtime st > tmo then [] else current st) @ n,
              wtime = time ev\<rparr>))"
  by (auto simp: word_handler_def Let_def)

theorem word_handler_appends_name_unchanged_witness:
  "word_handler demo_backend ''A'' [''space''] False 2 shift_down initial_word_state
     = (Inr False, initial_word_state)
   \<and> word_handler demo_backend ''A'' [''space''] False 2 a_down initial_word_state
     = (Inr False, \<lparr>current = ''a'', wtime = 1\<rparr>)"
proof -
  have m: "all_modifiers demo_backend =
             [''alt'', ''alt gr'', ''ctrl'', ''shift'', ''windows'',
              ''left ctrl'', ''right ctrl'', ''left shift'', ''right shift'']"
    by (simp add: demo_backend_def)
  show ?thesis
    using word_handler_appends_name_unchanged
            [of shift_down "''shift''" demo_backend "''A''" "[''space'']" False 2
                initial_word_state]
          word_handler_appends_name_unchanged
            [of a_down "''a''" demo_backend "''A''" "[''space'']" False 2 initial_word_state]
    by (simp add: m shift_down_def a_down_def key_event_def initial_word_state_def)
qed

text \<open>
  The claim as stated fails: after shift and the letter a, the buffer holds a lower-case
  a, so a listener for the word A does not fire on space while a listener for a does.
\<close>

theorem word_listener_shift_counterexample:
  "word_listener_run demo_backend ''A'' [''space''] False 2 [shift_down, a_down] 0
       initial_word_state
     = (Inr 0, \<lparr>current = ''a'', wtime = 1\<rparr>)
   \<and> word_listener_run demo_backend ''A'' [''space''] False 2
       [shift_down, a_down, space_down] 0 initial_word_state
     = (Inr 0, \<lparr>current = [], wtime = 2\<rparr>)
   \<and> word_listener_run demo_backend ''a'' [''space''] False 2
       [shift_down, a_down, space_down] 0 initial_word_state
     = (Inr 1, \<lparr>current = [], wtime = 2\<rparr>)"
  by (simp add: word_handler_def demo_backend_def shift_down_def a_down_def space_down_def
        key_event_def initial_word_state_def Let_def)




end
